theory Spec2Isabelle
  imports Complex_Main "HOL-Library.AList"
begin

section \<open>Conventions\<close>

text \<open>
  A JavaScript \<^verbatim>\<open>Map\<close> is an association list in insertion order with distinct keys:
  \<^verbatim>\<open>get\<close> is \<^const>\<open>map_of\<close>, \<^verbatim>\<open>set\<close> is \<^const>\<open>AList.update\<close> (an existing key keeps
  its position, a new key goes to the end) and \<^verbatim>\<open>delete\<close> is \<^const>\<open>AList.delete\<close>.
  JavaScript numbers that only ever hold integers (megabytes, milliseconds, byte counts) are
  \<^typ>\<open>int\<close>. \<^verbatim>\<open>Date.now()\<close> is a parameter \<open>now\<close>, read once for each synchronous segment
  of code. An \<^verbatim>\<open>async\<close> function is cut at its \<^verbatim>\<open>await\<close>s: one HOL function for each
  synchronous segment, the first one returning where the call is suspended.
\<close>

section \<open>services/modelManager.ts: the class ModelManager\<close>

record ModelConfig =
  modelName :: string
  modelPath :: string
  isQuantized :: bool
  quantizationType :: string
  maxTokens :: int
  memoryLimit :: int
  loadTimeout :: int
  unloadDelay :: int

record ModelStatus =
  isLoaded :: bool
  isLoading :: bool
  lastUsed :: int
  memoryUsage :: int
  error :: "string option"

text \<open>
  The fields of the class. \<open>gemmaModel\<close> and \<open>ttsModel\<close> are \<^verbatim>\<open>any = null\<close>: \<open>None\<close> is
  \<^verbatim>\<open>null\<close>, \<open>Some h\<close> a model object. The two configurations are \<^verbatim>\<open>readonly\<close> instance
  fields; they stay fields of the state, so that a statement about every state is a statement
  about every footprint, timeout and delay. The last two fields are not fields of the class:
  they are the part of the JavaScript runtime the class drives through \<^verbatim>\<open>setTimeout\<close> and
  \<^verbatim>\<open>clearTimeout\<close> for its unload callbacks: the pending timeouts (handle, time due and the
  \<open>modelKey\<close> captured by the callback) and the next fresh handle. Handles count from 1, as the
  runtime's do, so a stored handle is truthy.
\<close>

record ModelManager =
  gemmaModel :: "nat option"
  ttsModel :: "nat option"
  modelStatus :: "(string \<times> ModelStatus) list"
  unloadTimer :: "nat option"
  isBackgrounded :: bool
  GEMMA_CONFIG :: ModelConfig
  TTS_CONFIG :: ModelConfig
  pendingTimeouts :: "(nat \<times> int \<times> string) list"
  nextTimeout :: nat

definition new_ModelManager :: ModelManager where
  "new_ModelManager =
     \<lparr> gemmaModel = None, ttsModel = None, modelStatus = [], unloadTimer = None,
       isBackgrounded = False,
       GEMMA_CONFIG = \<lparr> modelName = ''gemma-3n-2b-q4'', modelPath = ''./assets/models/gemma-3n-2b-q4'',
         isQuantized = True, quantizationType = ''Q4'', maxTokens = 256, memoryLimit = 256,
         loadTimeout = 30000, unloadDelay = 300000 \<rparr>,
       TTS_CONFIG = \<lparr> modelName = ''indic-parler-tts-mini'',
         modelPath = ''./assets/models/indic-parler-tts-mini'',
         isQuantized = True, quantizationType = ''Q8'', maxTokens = 128, memoryLimit = 150,
         loadTimeout = 15000, unloadDelay = 600000 \<rparr>,
       pendingTimeouts = [], nextTimeout = 1 \<rparr>"

subsection \<open>Status table and memory check\<close>

definition setModelStatus :: "string \<Rightarrow> ModelStatus \<Rightarrow> ModelManager \<Rightarrow> ModelManager" where
  "setModelStatus modelKey status s = s\<lparr> modelStatus := AList.update modelKey status (modelStatus s) \<rparr>"

definition getModelStatus :: "ModelManager \<Rightarrow> string \<Rightarrow> ModelStatus option" where
  "getModelStatus s modelKey = map_of (modelStatus s) modelKey"

text \<open>\<^verbatim>\<open>this.modelStatus.get(modelKey)?.isLoaded\<close>: \<^verbatim>\<open>undefined\<close>, hence falsy, for a missing key.\<close>

definition statusIsLoaded :: "ModelManager \<Rightarrow> string \<Rightarrow> bool" where
  "statusIsLoaded s modelKey = (case getModelStatus s modelKey of None \<Rightarrow> False | Some st \<Rightarrow> isLoaded st)"

definition statusIsLoading :: "ModelManager \<Rightarrow> string \<Rightarrow> bool" where
  "statusIsLoading s modelKey = (case getModelStatus s modelKey of None \<Rightarrow> False | Some st \<Rightarrow> isLoading st)"

definition isGemmaLoaded :: "ModelManager \<Rightarrow> bool" where
  "isGemmaLoaded s = statusIsLoaded s ''gemma''"

definition isTTSLoaded :: "ModelManager \<Rightarrow> bool" where
  "isTTSLoaded s = statusIsLoaded s ''tts''"

definition getCurrentMemoryUsage :: "ModelManager \<Rightarrow> int" where
  "getCurrentMemoryUsage s = sum_list (map (\<lambda>(k, status). memoryUsage status) (modelStatus s))"

definition checkMemoryAvailability :: "int \<Rightarrow> ModelManager \<Rightarrow> bool" where
  "checkMemoryAvailability requiredMB s =
     (let availableMemory = 512; currentUsage = getCurrentMemoryUsage s
      in availableMemory - currentUsage \<ge> requiredMB)"

subsection \<open>The unload timer\<close>

definition cancelUnloadTimer :: "ModelManager \<Rightarrow> ModelManager" where
  "cancelUnloadTimer s =
     (case unloadTimer s of
        None \<Rightarrow> s
      | Some h \<Rightarrow> s\<lparr> pendingTimeouts := AList.delete h (pendingTimeouts s), unloadTimer := None \<rparr>)"

definition scheduleModelUnload :: "string \<Rightarrow> int \<Rightarrow> int \<Rightarrow> ModelManager \<Rightarrow> ModelManager" where
  "scheduleModelUnload modelKey delay now s =
     (let s1 = cancelUnloadTimer s; h = nextTimeout s1
      in s1\<lparr> pendingTimeouts := pendingTimeouts s1 @ [(h, now + delay, modelKey)],
             nextTimeout := Suc h, unloadTimer := Some h \<rparr>)"

definition unloadedStatus :: "int \<Rightarrow> ModelStatus" where
  "unloadedStatus now = \<lparr> isLoaded = False, isLoading = False, lastUsed = now, memoryUsage = 0, error = None \<rparr>"

definition unloadGemmaModel :: "int \<Rightarrow> ModelManager \<Rightarrow> ModelManager" where
  "unloadGemmaModel now s =
     (if gemmaModel s \<noteq> None
      then setModelStatus ''gemma'' (unloadedStatus now) (s\<lparr> gemmaModel := None \<rparr>)
      else s)"

definition unloadTTSModel :: "int \<Rightarrow> ModelManager \<Rightarrow> ModelManager" where
  "unloadTTSModel now s =
     (if ttsModel s \<noteq> None
      then setModelStatus ''tts'' (unloadedStatus now) (s\<lparr> ttsModel := None \<rparr>)
      else s)"

text \<open>
  The callback given to \<^verbatim>\<open>setTimeout\<close> by \<open>scheduleModelUnload\<close>, and the runtime firing the
  timeout with handle \<open>h\<close> at time \<open>now\<close>: a timeout that is not pending, or not yet due, does
  not fire; one that fires leaves the runtime's table (the field \<open>unloadTimer\<close> keeps the
  stale handle, the callback does not reset it).
\<close>

definition unloadCallback :: "string \<Rightarrow> int \<Rightarrow> ModelManager \<Rightarrow> ModelManager" where
  "unloadCallback modelKey now s =
     (if modelKey = ''gemma'' then unloadGemmaModel now s
      else if modelKey = ''tts'' then unloadTTSModel now s
      else s)"

definition fireTimeout :: "nat \<Rightarrow> int \<Rightarrow> ModelManager \<Rightarrow> ModelManager" where
  "fireTimeout h now s =
     (case map_of (pendingTimeouts s) h of
        None \<Rightarrow> s
      | Some (due, modelKey) \<Rightarrow>
          if now < due then s
          else unloadCallback modelKey now (s\<lparr> pendingTimeouts := AList.delete h (pendingTimeouts s) \<rparr>))"

subsection \<open>Lazy loading\<close>

text \<open>
  \<open>loadGemmaModel\<close> and \<open>loadTTSModel\<close> are the same text up to the key, the configuration
  and the name in the error message; \<open>loadModel\<close> is that text, with the three as functions
  of the model.
\<close>

datatype model = Gemma | TTS

fun modelKeyOf :: "model \<Rightarrow> string" where
  "modelKeyOf Gemma = ''gemma''"
| "modelKeyOf TTS = ''tts''"

fun configOf :: "model \<Rightarrow> ModelManager \<Rightarrow> ModelConfig" where
  "configOf Gemma s = GEMMA_CONFIG s"
| "configOf TTS s = TTS_CONFIG s"

fun insufficientMemory :: "model \<Rightarrow> string" where
  "insufficientMemory Gemma = ''Insufficient memory for Gemma model''"
| "insufficientMemory TTS = ''Insufficient memory for TTS model''"

text \<open>
  Where a call of an \<^verbatim>\<open>async\<close> load function stands after a synchronous segment: its promise
  is resolved, or rejected with an \<^verbatim>\<open>Error\<close> of the given message, or the call is suspended
  in \<open>waitForModelLoad\<close>, or suspended in \<open>loadQuantizedModel\<close> on a timeout of the given
  number of milliseconds.
\<close>

datatype load_step = Returned | Threw string | AwaitWait | AwaitLoad int

text \<open>
  \<open>loadQuantizedModel\<close> awaits \<^verbatim>\<open>setTimeout(resolve, 2000)\<close> and logs a line; it reads
  \<open>modelName\<close> and \<open>quantizationType\<close> for the log only and has no failing path. The result
  is the delay after which its promise resolves (\<open>Inr\<close>), or the message it rejects with
  (\<open>Inl\<close>, never produced).
\<close>

definition loadQuantizedModel :: "ModelConfig \<Rightarrow> string + int" where
  "loadQuantizedModel config = Inr 2000"

definition loadingStatus :: "int \<Rightarrow> ModelStatus" where
  "loadingStatus now = \<lparr> isLoaded = False, isLoading = True, lastUsed = now, memoryUsage = 0, error = None \<rparr>"

definition loadedStatus :: "int \<Rightarrow> int \<Rightarrow> ModelStatus" where
  "loadedStatus now mem = \<lparr> isLoaded = True, isLoading = False, lastUsed = now, memoryUsage = mem, error = None \<rparr>"

definition failedStatus :: "int \<Rightarrow> string \<Rightarrow> ModelStatus" where
  "failedStatus now msg = \<lparr> isLoaded = False, isLoading = False, lastUsed = now, memoryUsage = 0, error = Some msg \<rparr>"

text \<open>The \<^verbatim>\<open>catch\<close> block: record the failure, rethrow.\<close>

definition loadModel_catch :: "model \<Rightarrow> int \<Rightarrow> string \<Rightarrow> ModelManager \<Rightarrow> load_step \<times> ModelManager" where
  "loadModel_catch m now msg s = (Threw msg, setModelStatus (modelKeyOf m) (failedStatus now msg) s)"

text \<open>
  The first lines of the function, up to and including the status write before \<^verbatim>\<open>try\<close>:
  \<open>Inl\<close> when the call leaves through one of the two early exits, \<open>Inr\<close> the state in
  which the \<^verbatim>\<open>try\<close> block is entered.
\<close>

definition loadModel_enter :: "model \<Rightarrow> int \<Rightarrow> ModelManager \<Rightarrow> load_step + ModelManager" where
  "loadModel_enter m now s =
     (if statusIsLoaded s (modelKeyOf m) then Inl Returned
      else if statusIsLoading s (modelKeyOf m) then Inl AwaitWait
      else Inr (setModelStatus (modelKeyOf m) (loadingStatus now) s))"

text \<open>The \<^verbatim>\<open>try\<close> block up to its \<^verbatim>\<open>await\<close>.\<close>

definition loadModel_try :: "model \<Rightarrow> int \<Rightarrow> ModelManager \<Rightarrow> load_step \<times> ModelManager" where
  "loadModel_try m now s =
     (if \<not> checkMemoryAvailability (memoryLimit (configOf m s)) s
      then loadModel_catch m now (insufficientMemory m) s
      else case loadQuantizedModel (configOf m s) of
             Inr delay \<Rightarrow> (AwaitLoad delay, s)
           | Inl msg \<Rightarrow> loadModel_catch m now msg s)"

text \<open>The synchronous segment that a call of the load function runs.\<close>

definition loadModel_start :: "model \<Rightarrow> int \<Rightarrow> ModelManager \<Rightarrow> load_step \<times> ModelManager" where
  "loadModel_start m now s =
     (case loadModel_enter m now s of
        Inl step \<Rightarrow> (step, s)
      | Inr s1 \<Rightarrow> loadModel_try m now s1)"

text \<open>The rest of the \<^verbatim>\<open>try\<close> block, run when the promise of \<open>loadQuantizedModel\<close> resolves.\<close>

definition loadModel_finish :: "model \<Rightarrow> int \<Rightarrow> ModelManager \<Rightarrow> load_step \<times> ModelManager" where
  "loadModel_finish m now s =
     (let s1 = setModelStatus (modelKeyOf m) (loadedStatus now (memoryLimit (configOf m s))) s
      in (Returned, scheduleModelUnload (modelKeyOf m) (unloadDelay (configOf m s)) now s1))"

definition loadGemmaModel_start :: "int \<Rightarrow> ModelManager \<Rightarrow> load_step \<times> ModelManager" where
  "loadGemmaModel_start = loadModel_start Gemma"

definition loadGemmaModel_finish :: "int \<Rightarrow> ModelManager \<Rightarrow> load_step \<times> ModelManager" where
  "loadGemmaModel_finish = loadModel_finish Gemma"

definition loadTTSModel_start :: "int \<Rightarrow> ModelManager \<Rightarrow> load_step \<times> ModelManager" where
  "loadTTSModel_start = loadModel_start TTS"

definition loadTTSModel_finish :: "int \<Rightarrow> ModelManager \<Rightarrow> load_step \<times> ModelManager" where
  "loadTTSModel_finish = loadModel_finish TTS"

subsection \<open>Waiting for a load in flight\<close>

text \<open>
  \<open>checkStatus\<close> is the closure inside \<open>waitForModelLoad\<close>: \<open>True\<close> when it calls
  \<^verbatim>\<open>resolve()\<close>, \<open>False\<close> when it re-arms itself with \<^verbatim>\<open>setTimeout(checkStatus, 100)\<close>.
  The promise is built from \<^verbatim>\<open>resolve\<close> alone: it has no rejecting path.
\<close>

definition checkStatus :: "string \<Rightarrow> ModelManager \<Rightarrow> bool" where
  "checkStatus modelKey s =
     (case getModelStatus s modelKey of None \<Rightarrow> False | Some status \<Rightarrow> \<not> isLoading status)"

text \<open>
  \<open>waitForModelLoad\<close> polls: the list holds the manager as each run of \<open>checkStatus\<close> finds
  it (the first run is synchronous, each later one 100 ms after the one before). \<open>Some n\<close>:
  the promise resolves at the run of index \<open>n\<close>; \<open>None\<close>: still polling after the last state
  given.
\<close>

fun waitForModelLoad :: "string \<Rightarrow> ModelManager list \<Rightarrow> nat option" where
  "waitForModelLoad modelKey [] = None"
| "waitForModelLoad modelKey (s # polls) =
     (if checkStatus modelKey s then Some 0
      else map_option Suc (waitForModelLoad modelKey polls))"

text \<open>
  A call of the load function that left \<open>loadModel_start\<close> with \<open>AwaitWait\<close>: when the
  promise of \<open>waitForModelLoad\<close> resolves, the next statement is \<^verbatim>\<open>return\<close>. \<open>None\<close>: the
  call is still suspended.
\<close>

definition loadModel_waiting :: "model \<Rightarrow> ModelManager list \<Rightarrow> load_step option" where
  "loadModel_waiting m polls =
     (case waitForModelLoad (modelKeyOf m) polls of None \<Rightarrow> None | Some n \<Rightarrow> Some Returned)"

subsection \<open>Application state\<close>

text \<open>
  \<open>unloadModelsOnBackground\<close> also calls \<open>clearCache\<close>, which removes keys of the persistent
  \<^verbatim>\<open>AsyncStorage\<close> and touches no field of the manager; it is left out.
\<close>

definition unloadModelsOnBackground :: "int \<Rightarrow> ModelManager \<Rightarrow> ModelManager" where
  "unloadModelsOnBackground now s = unloadTTSModel now (unloadGemmaModel now s)"

definition handleAppStateChange :: "string \<Rightarrow> int \<Rightarrow> ModelManager \<Rightarrow> ModelManager" where
  "handleAppStateChange nextAppState now s =
     (if nextAppState = ''background'' \<or> nextAppState = ''inactive''
      then unloadModelsOnBackground now (s\<lparr> isBackgrounded := True \<rparr>)
      else if nextAppState = ''active''
      then cancelUnloadTimer (s\<lparr> isBackgrounded := False \<rparr>)
      else s)"

subsection \<open>The request queue\<close>

text \<open>
  A queued closure, as \<open>executeWithGemma\<close> and \<open>executeWithTTS\<close> build it: the model it loads
  and the caller's operation (a number names it). The closure catches everything, so its own
  promise always resolves; the caller's promise is resolved or rejected inside it.
\<close>

datatype task = Task model nat

text \<open>
  Where the closure popped by the drain loop stands: suspended in
  \<^verbatim>\<open>await this.load...Model()\<close>, suspended in \<^verbatim>\<open>await operation()\<close>, or finished (the caller's
  promise is settled and the \<^verbatim>\<open>await operation()\<close> of \<open>processQueue\<close> has not resumed yet).
\<close>

datatype phase = Loading | Running | Finished

text \<open>What an observer of the queue sees; the flag of \<open>Settled\<close> is \<^verbatim>\<open>resolve\<close> or \<^verbatim>\<open>reject\<close>.\<close>

datatype observation = Popped task | Began task | Settled task bool

text \<open>
  \<open>requestQueue\<close> and \<open>isProcessingQueue\<close> are the two queue fields of the class; \<open>current\<close>
  is the local variable \<^verbatim>\<open>operation\<close> of the suspended drain loop with the phase of its
  closure, and \<open>trace\<close> records the observations so far.
\<close>

record RequestQueue =
  requestQueue :: "task list"
  isProcessingQueue :: bool
  current :: "(task \<times> phase) option"
  trace :: "observation list"

definition new_RequestQueue :: RequestQueue where
  "new_RequestQueue = \<lparr> requestQueue = [], isProcessingQueue = False, current = None, trace = [] \<rparr>"

text \<open>
  The \<^verbatim>\<open>while\<close> loop of \<open>processQueue\<close> from its test to its next suspension: either the
  queue is empty and the flag is cleared, or the head is shifted and called, which runs the
  closure up to its first \<^verbatim>\<open>await\<close>.
\<close>

definition drain :: "RequestQueue \<Rightarrow> RequestQueue" where
  "drain s =
     (case requestQueue s of
        [] \<Rightarrow> s\<lparr> isProcessingQueue := False \<rparr>
      | operation # rest \<Rightarrow>
          s\<lparr> requestQueue := rest, current := Some (operation, Loading),
             trace := trace s @ [Popped operation] \<rparr>)"

definition processQueue :: "RequestQueue \<Rightarrow> RequestQueue" where
  "processQueue s =
     (if isProcessingQueue s \<or> length (requestQueue s) = 0 then s
      else drain (s\<lparr> isProcessingQueue := True \<rparr>))"

text \<open>\<open>executeWithGemma\<close> and \<open>executeWithTTS\<close>: push the closure, call \<open>processQueue\<close>.\<close>

definition execute :: "task \<Rightarrow> RequestQueue \<Rightarrow> RequestQueue" where
  "execute t s = processQueue (s\<lparr> requestQueue := requestQueue s @ [t] \<rparr>)"

definition executeWithGemma :: "nat \<Rightarrow> RequestQueue \<Rightarrow> RequestQueue" where
  "executeWithGemma operation = execute (Task Gemma operation)"

definition executeWithTTS :: "nat \<Rightarrow> RequestQueue \<Rightarrow> RequestQueue" where
  "executeWithTTS operation = execute (Task TTS operation)"

text \<open>
  The continuations of the closure. The load settles: on success the operation is called, on
  failure the \<^verbatim>\<open>catch\<close> rejects the caller. The operation settles: the caller is resolved or
  rejected. Then the drain loop resumes. A continuation whose suspension is not the current one
  does not exist, and the state stays as it is.
\<close>

definition loadSettled :: "bool \<Rightarrow> RequestQueue \<Rightarrow> RequestQueue" where
  "loadSettled ok s =
     (case current s of
        Some (t, Loading) \<Rightarrow>
          if ok then s\<lparr> current := Some (t, Running), trace := trace s @ [Began t] \<rparr>
          else s\<lparr> current := Some (t, Finished), trace := trace s @ [Settled t False] \<rparr>
      | _ \<Rightarrow> s)"

definition operationSettled :: "bool \<Rightarrow> RequestQueue \<Rightarrow> RequestQueue" where
  "operationSettled ok s =
     (case current s of
        Some (t, Running) \<Rightarrow> s\<lparr> current := Some (t, Finished), trace := trace s @ [Settled t ok] \<rparr>
      | _ \<Rightarrow> s)"

definition loopResumes :: "RequestQueue \<Rightarrow> RequestQueue" where
  "loopResumes s =
     (case current s of
        Some (t, Finished) \<Rightarrow> drain (s\<lparr> current := None \<rparr>)
      | _ \<Rightarrow> s)"

datatype event = Submit task | LoadSettled bool | OperationSettled bool | LoopResumes

fun step :: "RequestQueue \<Rightarrow> event \<Rightarrow> RequestQueue" where
  "step s (Submit t) = execute t s"
| "step s (LoadSettled ok) = loadSettled ok s"
| "step s (OperationSettled ok) = operationSettled ok s"
| "step s LoopResumes = loopResumes s"

definition run :: "event list \<Rightarrow> RequestQueue" where
  "run events = foldl step new_RequestQueue events"

text \<open>The submissions of a run in their order, and the tasks popped in a trace in their order.\<close>

fun submissions :: "event list \<Rightarrow> task list" where
  "submissions [] = []"
| "submissions (Submit t # events) = t # submissions events"
| "submissions (e # events) = submissions events"

fun popped :: "observation list \<Rightarrow> task list" where
  "popped [] = []"
| "popped (Popped t # obs) = t # popped obs"
| "popped (ob # obs) = popped obs"

text \<open>
  A trace is serial when no task is popped, and no operation begins, while another task is
  between popped and settled. \<open>serialFrom c\<close> reads a trace with \<open>c\<close> the task that is open;
  it returns the task open at the end, or \<open>None\<close> when the trace breaks the rule.
\<close>

fun advance :: "task option \<Rightarrow> observation \<Rightarrow> task option option" where
  "advance c (Popped t) = (if c = None then Some (Some t) else None)"
| "advance c (Began t) = (if c = Some t then Some c else None)"
| "advance c (Settled t ok) = (if c = Some t then Some None else None)"

fun serialFrom :: "task option \<Rightarrow> observation list \<Rightarrow> task option option" where
  "serialFrom c [] = Some c"
| "serialFrom c (ob # obs) = (case advance c ob of None \<Rightarrow> None | Some c' \<Rightarrow> serialFrom c' obs)"

definition serial :: "observation list \<Rightarrow> bool" where
  "serial obs = (serialFrom None obs \<noteq> None)"

section \<open>utils/memoryManager.ts: the class MemoryManager\<close>

text \<open>
  The file is \<^verbatim>\<open>src/unnamed/part_002\<close>; the documents of the repository and the import in
  \<^verbatim>\<open>App.tsx\<close> give its name.
  The state of the class that its cache functions read and write is the \<^verbatim>\<open>Map\<close>
  \<open>cacheItems\<close>; the functions below take it and return it. The memory-warning listeners
  called at the end of \<open>performMemoryCleanup\<close> are callbacks of other modules and are left
  out. The field \<open>size\<close> of the item is \<open>item_size\<close> here.
\<close>

record CacheItem =
  key :: string
  item_size :: int
  timestamp :: int
  priority :: int

type_synonym cacheItems = "(string \<times> CacheItem) list"

definition MEMORY_THRESHOLD :: rat where
  "MEMORY_THRESHOLD = 8 / 10"

definition CLEANUP_INTERVAL :: int where
  "CLEANUP_INTERVAL = 300000"

definition CACHE_EXPIRY :: int where
  "CACHE_EXPIRY = 3600000"

text \<open>
  The data given to \<open>addCacheItem\<close>, by what \<^verbatim>\<open>typeof\<close> says of it: a string (its UTF-8
  bytes), an object (the bytes of its \<^verbatim>\<open>JSON.stringify\<close>), or anything else. The size of a
  \<^verbatim>\<open>Blob\<close> is its number of bytes.
\<close>

datatype data = StringData string | ObjectData string | OtherData

fun estimateDataSize :: "data \<Rightarrow> int" where
  "estimateDataSize (StringData bytes) = int (length bytes)"
| "estimateDataSize (ObjectData json) = int (length json)"
| "estimateDataSize OtherData = 0"

definition getTotalMemory :: "string \<Rightarrow> int" where
  "getTotalMemory os = (if os = ''ios'' then 4096 else 8192)"

definition getCacheSize :: "cacheItems \<Rightarrow> int" where
  "getCacheSize items = sum_list (map (\<lambda>(k, item). item_size item) items)"

definition getModelMemory :: int where
  "getModelMemory = 256"

definition getUsedMemory :: "cacheItems \<Rightarrow> int" where
  "getUsedMemory items =
     (let cacheSize = getCacheSize items; modelMemory = getModelMemory; baseMemory = 512
      in baseMemory + cacheSize + modelMemory)"

record MemoryInfo =
  totalMemory :: int
  usedMemory :: int
  availableMemory :: int
  cacheSize :: int
  modelMemory :: int

definition getMemoryInfo :: "string \<Rightarrow> cacheItems \<Rightarrow> MemoryInfo" where
  "getMemoryInfo os items =
     \<lparr> totalMemory = getTotalMemory os, usedMemory = getUsedMemory items,
       availableMemory = getTotalMemory os - getUsedMemory items,
       cacheSize = getCacheSize items, modelMemory = getModelMemory \<rparr>"

text \<open>
  \<^verbatim>\<open>memoryInfo.usedMemory / memoryInfo.totalMemory\<close>. The quotient is a rational here and a
  double in the program; the total is 4096 or 8192, so the double is the exact quotient of the
  two integers, and no quotient of an integer by a power of two lies between 8/10 and the
  double nearest to it: the test against the threshold is the same.
\<close>

definition usageRatio :: "string \<Rightarrow> cacheItems \<Rightarrow> rat" where
  "usageRatio os items =
     of_int (usedMemory (getMemoryInfo os items)) / of_int (totalMemory (getMemoryInfo os items))"

definition removeExpiredCacheItems :: "int \<Rightarrow> cacheItems \<Rightarrow> cacheItems" where
  "removeExpiredCacheItems now items =
     (let expiredKeys = map fst (filter (\<lambda>(k, item). now - timestamp item > CACHE_EXPIRY) items)
      in fold AList.delete expiredKeys items)"

text \<open>
  \<^verbatim>\<open>sort\<close> is stable and so is \<^const>\<open>sort_key\<close>; \<^verbatim>\<open>Math.ceil(n * 0.5)\<close> is exact on a
  length.
\<close>

definition removeLowPriorityItems :: "cacheItems \<Rightarrow> cacheItems" where
  "removeLowPriorityItems items =
     (let lowPriorityItems = sort_key timestamp (filter (\<lambda>item. priority item = 3) (map snd items));
          itemsToRemove = nat \<lceil>rat_of_nat (length lowPriorityItems) * (5 / 10)\<rceil>
      in fold (\<lambda>item. AList.delete (key item)) (take itemsToRemove lowPriorityItems) items)"

definition performMemoryCleanup :: "string \<Rightarrow> int \<Rightarrow> cacheItems \<Rightarrow> cacheItems" where
  "performMemoryCleanup os now items =
     (let items1 = removeExpiredCacheItems now items
      in if usageRatio os items1 > MEMORY_THRESHOLD then removeLowPriorityItems items1 else items1)"

definition checkMemoryThreshold :: "string \<Rightarrow> int \<Rightarrow> cacheItems \<Rightarrow> cacheItems" where
  "checkMemoryThreshold os now items =
     (if usageRatio os items > MEMORY_THRESHOLD then performMemoryCleanup os now items else items)"

definition addCacheItem :: "string \<Rightarrow> data \<Rightarrow> int \<Rightarrow> string \<Rightarrow> int \<Rightarrow> cacheItems \<Rightarrow> cacheItems" where
  "addCacheItem k d prio os now items =
     (let item = \<lparr> key = k, item_size = estimateDataSize d, timestamp = now, priority = prio \<rparr>
      in checkMemoryThreshold os now (AList.update k item items))"

definition removeCacheItem :: "string \<Rightarrow> cacheItems \<Rightarrow> cacheItems" where
  "removeCacheItem k items = AList.delete k items"

definition getCacheItem :: "cacheItems \<Rightarrow> string \<Rightarrow> CacheItem option" where
  "getCacheItem items k = map_of items k"

text \<open>The part of \<open>performAggressiveCleanup\<close> on \<open>cacheItems\<close>; the rest clears \<^verbatim>\<open>AsyncStorage\<close>.\<close>

definition performAggressiveCleanup :: "cacheItems \<Rightarrow> cacheItems" where
  "performAggressiveCleanup items =
     (let keysToRemove = map fst (filter (\<lambda>(k, item). priority item > 1) items)
      in fold AList.delete keysToRemove items)"

definition performPeriodicCleanup :: "string \<Rightarrow> int \<Rightarrow> cacheItems \<Rightarrow> cacheItems" where
  "performPeriodicCleanup os now items = checkMemoryThreshold os now (removeExpiredCacheItems now items)"

text \<open>The listener of the class for the application state; \<open>resumeNormalOperation\<close> only logs.\<close>

definition MemoryManager_handleAppStateChange :: "string \<Rightarrow> cacheItems \<Rightarrow> cacheItems" where
  "MemoryManager_handleAppStateChange nextAppState items =
     (if nextAppState = ''background'' \<or> nextAppState = ''inactive''
      then performAggressiveCleanup items
      else items)"

text \<open>
  \<open>getCacheStats\<close>: the count, the sum of the sizes and the counts of the priorities 1, 2
  and 3 (an item of another priority makes the program add a property that is not a number;
  the breakdown here leaves it out).
\<close>

record CacheStats =
  totalItems :: nat
  totalSize :: int
  priorityBreakdown :: "nat \<times> nat \<times> nat"

definition getCacheStats :: "cacheItems \<Rightarrow> CacheStats" where
  "getCacheStats items =
     \<lparr> totalItems = length items,
       totalSize = sum_list (map (\<lambda>(k, item). item_size item) items),
       priorityBreakdown =
         (length (filter (\<lambda>(k, item). priority item = 1) items),
          length (filter (\<lambda>(k, item). priority item = 2) items),
          length (filter (\<lambda>(k, item). priority item = 3) items)) \<rparr>"

section \<open>services/optimizedTranslationService.ts: the translation cache\<close>

text \<open>The field \<open>text\<close> of the entry is \<open>entry_text\<close> here, its \<open>timestamp\<close> is \<open>entry_timestamp\<close>.\<close>

record CacheEntry =
  entry_text :: string
  entry_timestamp :: int
  confidence :: rat

type_synonym translationCache = "(string \<times> CacheEntry) list"

definition CACHE_EXPIRY_HOURS :: int where
  "CACHE_EXPIRY_HOURS = 24"

definition MAX_CACHE_SIZE :: nat where
  "MAX_CACHE_SIZE = 500"

text \<open>\<open>getFromCache\<close> returns the text or \<^verbatim>\<open>null\<close>, and the cache as it leaves it.\<close>

definition getFromCache :: "string \<Rightarrow> int \<Rightarrow> translationCache \<Rightarrow> string option \<times> translationCache" where
  "getFromCache k now cache =
     (case map_of cache k of
        None \<Rightarrow> (None, cache)
      | Some entry \<Rightarrow>
          if now - entry_timestamp entry < CACHE_EXPIRY_HOURS * 3600000
          then (Some (entry_text entry), cache)
          else (None, AList.delete k cache))"

text \<open>The \<^verbatim>\<open>for\<close> loop of \<open>evictOldestCacheEntry\<close>, with its two variables.\<close>

fun oldestEntry :: "translationCache \<Rightarrow> string \<Rightarrow> int \<Rightarrow> string \<times> int" where
  "oldestEntry [] oldestKey oldestTime = (oldestKey, oldestTime)"
| "oldestEntry ((k, entry) # rest) oldestKey oldestTime =
     (if entry_timestamp entry < oldestTime
      then oldestEntry rest k (entry_timestamp entry)
      else oldestEntry rest oldestKey oldestTime)"

text \<open>\<^verbatim>\<open>if (oldestKey)\<close>: the empty string is falsy.\<close>

definition evictOldestCacheEntry :: "int \<Rightarrow> translationCache \<Rightarrow> translationCache" where
  "evictOldestCacheEntry now cache =
     (let (oldestKey, oldestTime) = oldestEntry cache [] now
      in if oldestKey \<noteq> [] then AList.delete oldestKey cache else cache)"

definition addToCache :: "string \<Rightarrow> string \<Rightarrow> rat \<Rightarrow> int \<Rightarrow> translationCache \<Rightarrow> translationCache" where
  "addToCache k txt conf now cache =
     (let cache1 = (if length cache \<ge> MAX_CACHE_SIZE then evictOldestCacheEntry now cache else cache)
      in AList.update k \<lparr> entry_text = txt, entry_timestamp = now, confidence = conf \<rparr> cache1)"

definition cleanupExpiredCache :: "int \<Rightarrow> translationCache \<Rightarrow> translationCache" where
  "cleanupExpiredCache now cache =
     (let expiryTime = CACHE_EXPIRY_HOURS * 3600000
      in filter (\<lambda>(k, entry). \<not> now - entry_timestamp entry > expiryTime) cache)"

text \<open>\<open>getCacheStats\<close> of the translation service: \<open>size\<close> and \<open>memoryUsage\<close>.\<close>

definition translationCacheStats :: "translationCache \<Rightarrow> nat \<times> nat" where
  "translationCacheStats cache = (length cache, length cache * 100)"

section \<open>Notions used in the statements and proofs\<close>

text \<open>
  The task that is between popped and settled, read off the drain loop's current closure.
\<close>

fun openTask :: "(task \<times> phase) option \<Rightarrow> task option" where
  "openTask None = None"
| "openTask (Some (t, Finished)) = None"
| "openTask (Some (t, ph)) = Some t"

text \<open>
  The invariant of the queue: the flag is set exactly while the drain loop holds a closure,
  and the trace is serial, its open task being the one the loop holds.
\<close>

definition queue_inv :: "RequestQueue \<Rightarrow> bool" where
  "queue_inv s =
     ((isProcessingQueue s = (current s \<noteq> None))
      \<and> serialFrom None (trace s) = Some (openTask (current s)))"

text \<open>The usage that the status table records for one key; 0 for a key it does not hold.\<close>

definition recordedUsage :: "ModelManager \<Rightarrow> string \<Rightarrow> int" where
  "recordedUsage s modelKey =
     (case getModelStatus s modelKey of None \<Rightarrow> 0 | Some status \<Rightarrow> memoryUsage status)"

text \<open>
  A call of the load function run alone: nothing else touches the manager while the call is
  suspended in \<open>loadQuantizedModel\<close>, and the timeout fires when it is due.
\<close>

definition loadModel_alone :: "model \<Rightarrow> int \<Rightarrow> ModelManager \<Rightarrow> load_step \<times> ModelManager" where
  "loadModel_alone m now s =
     (case loadModel_start m now s of
        (AwaitLoad delay, s1) \<Rightarrow> loadModel_finish m (now + delay) s1
      | (r, s1) \<Rightarrow> (r, s1))"

text \<open>A fresh manager whose translation model has a footprint of 600 MB.\<close>

definition overBudget :: ModelManager where
  "overBudget = new_ModelManager\<lparr> GEMMA_CONFIG := (GEMMA_CONFIG new_ModelManager)\<lparr> memoryLimit := 600 \<rparr> \<rparr>"

text \<open>The manager after both models were loaded, one after the other.\<close>

definition bothLoaded :: ModelManager where
  "bothLoaded = snd (loadModel_alone TTS 2000 (snd (loadModel_alone Gemma 0 new_ModelManager)))"

text \<open>\<open>cleanup\<close>, without the removal of the subscription and the clearing of \<^verbatim>\<open>AsyncStorage\<close>.\<close>

definition cleanup :: "int \<Rightarrow> ModelManager \<Rightarrow> ModelManager" where
  "cleanup now s = unloadTTSModel now (unloadGemmaModel now (cancelUnloadTimer s))"

text \<open>
  What can happen to the manager, one synchronous segment at a time: a call of a load function
  starts, a suspended load resumes, the runtime fires a timeout, the application state changes,
  a public unload function or \<open>cleanup\<close> is called. A history is any sequence of these from
  the fresh manager; it allows more than the program does (a load may resume that never
  started), so what holds of every history holds of every run of the program.
\<close>

datatype call =
    LoadStart model int | LoadFinish model int | TimeoutFires nat int
  | AppStateChange string int | UnloadGemma int | UnloadTTS int | Cleanup int

fun perform :: "ModelManager \<Rightarrow> call \<Rightarrow> ModelManager" where
  "perform s (LoadStart m now) = snd (loadModel_start m now s)"
| "perform s (LoadFinish m now) = snd (loadModel_finish m now s)"
| "perform s (TimeoutFires h now) = fireTimeout h now s"
| "perform s (AppStateChange nextAppState now) = handleAppStateChange nextAppState now s"
| "perform s (UnloadGemma now) = unloadGemmaModel now s"
| "perform s (UnloadTTS now) = unloadTTSModel now s"
| "perform s (Cleanup now) = cleanup now s"

definition history :: "call list \<Rightarrow> ModelManager" where
  "history calls = foldl perform new_ModelManager calls"

text \<open>The model whose load was the last to finish in a history.\<close>

fun lastLoadedFrom :: "model option \<Rightarrow> call list \<Rightarrow> model option" where
  "lastLoadedFrom acc [] = acc"
| "lastLoadedFrom acc (LoadFinish m now # calls) = lastLoadedFrom (Some m) calls"
| "lastLoadedFrom acc (c # calls) = lastLoadedFrom acc calls"

definition lastLoaded :: "call list \<Rightarrow> model option" where
  "lastLoaded calls = lastLoadedFrom None calls"

text \<open>
  The invariant of the manager over its histories: no statement assigns a model object to
  \<open>gemmaModel\<close> or \<open>ttsModel\<close>, the configurations are the shipped ones, and the runtime
  holds no unload timeout or exactly one, whose handle is in \<open>unloadTimer\<close> and whose key is
  that of the model loaded last.
\<close>

definition manager_inv :: "ModelManager \<Rightarrow> model option \<Rightarrow> bool" where
  "manager_inv s lastm =
     (gemmaModel s = None \<and> ttsModel s = None
      \<and> GEMMA_CONFIG s = GEMMA_CONFIG new_ModelManager \<and> TTS_CONFIG s = TTS_CONFIG new_ModelManager
      \<and> (case pendingTimeouts s of
            [] \<Rightarrow> True
          | p # ps \<Rightarrow> ps = [] \<and> unloadTimer s = Some (fst p)
                \<and> map_option modelKeyOf lastm = Some (snd (snd p))))"

text \<open>A fresh manager whose translation model has a \<open>loadTimeout\<close> of one second.\<close>

definition shortTimeout :: ModelManager where
  "shortTimeout = new_ModelManager\<lparr> GEMMA_CONFIG := (GEMMA_CONFIG new_ModelManager)\<lparr> loadTimeout := 1000 \<rparr> \<rparr>"

text \<open>
  Of the statuses the class writes, the one with \<open>isLoading\<close> set is the loading one: it
  is not loaded and records no error.
\<close>

definition status_inv :: "ModelManager \<Rightarrow> bool" where
  "status_inv s =
     list_all (\<lambda>(k, status). \<not> isLoading status \<or> (\<not> isLoaded status \<and> error status = None))
       (modelStatus s)"

text \<open>
  The status of a resource whose load is in flight or has finished: it is there, records no
  error, and is either loading or loaded.
\<close>

definition inFlightOrLoaded :: "ModelManager \<Rightarrow> string \<Rightarrow> bool" where
  "inFlightOrLoaded s modelKey =
     (case getModelStatus s modelKey of
        None \<Rightarrow> False
      | Some status \<Rightarrow> error status = None \<and> isLoaded status \<noteq> isLoading status)"

text \<open>A cache of three items: one of priority 1 (high) and two of priority 2 (medium).\<close>

definition threeItems :: cacheItems where
  "threeItems =
     addCacheItem ''m2'' (StringData ''tres'') 2 ''ios'' 30
       (addCacheItem ''m1'' (StringData ''dos'') 2 ''ios'' 20
         (addCacheItem ''h'' (StringData ''uno'') 1 ''ios'' 10 []))"

text \<open>
  What the \<^verbatim>\<open>Map\<close> of the cache always satisfies: its keys are distinct, and each item is
  stored under its own \<open>key\<close>.
\<close>

definition wf_items :: "cacheItems \<Rightarrow> bool" where
  "wf_items items = (distinct (map fst items) \<and> list_all (\<lambda>(k, item). key item = k) items)"

definition expired :: "int \<Rightarrow> CacheItem \<Rightarrow> bool" where
  "expired now item = (now - timestamp item > CACHE_EXPIRY)"

definition lowItems :: "cacheItems \<Rightarrow> CacheItem list" where
  "lowItems items = filter (\<lambda>item. priority item = 3) (map snd items)"

text \<open>
  The example of the specification: four items of 150 bytes each, of priorities low, low,
  medium and high, added one after the other on the given platform.
\<close>

definition fourItems :: "string \<Rightarrow> cacheItems" where
  "fourItems os =
     addCacheItem ''d'' (StringData (replicate 150 CHR ''x'')) 1 os 4
       (addCacheItem ''c'' (StringData (replicate 150 CHR ''x'')) 2 os 3
         (addCacheItem ''b'' (StringData (replicate 150 CHR ''x'')) 3 os 2
           (addCacheItem ''a'' (StringData (replicate 150 CHR ''x'')) 3 os 1 [])))"

text \<open>Two medium items of 2000 bytes each, and two low items of 3000 bytes each.\<close>

definition twoMedium :: cacheItems where
  "twoMedium =
     [(''m1'', \<lparr> key = ''m1'', item_size = 2000, timestamp = 1, priority = 2 \<rparr>),
      (''m2'', \<lparr> key = ''m2'', item_size = 2000, timestamp = 2, priority = 2 \<rparr>)]"

definition twoLow :: cacheItems where
  "twoLow =
     [(''l1'', \<lparr> key = ''l1'', item_size = 3000, timestamp = 1, priority = 3 \<rparr>),
      (''l2'', \<lparr> key = ''l2'', item_size = 3000, timestamp = 2, priority = 3 \<rparr>)]"

text \<open>Two low items of 3000 bytes each followed by a medium item of 100 bytes.\<close>

definition lowLowMedium :: cacheItems where
  "lowLowMedium = twoLow @ [(''m'', \<lparr> key = ''m'', item_size = 100, timestamp = 3, priority = 2 \<rparr>)]"

text \<open>A cache of the memory manager with one item, added at time 0.\<close>

definition staleItems :: cacheItems where
  "staleItems = addCacheItem ''k'' (StringData ''hello'') 2 ''ios'' 0 []"

text \<open>A translation cache with one entry, added at time 0.\<close>

definition oneTranslation :: translationCache where
  "oneTranslation = addToCache ''translation_en_hi_99162322'' ''namaste'' (85 / 100) 0 []"

text \<open>
  A translation cache of 500 entries under 500 keys, all with the same timestamp: entries
  written within one millisecond, or written before the clock was set back to that time.
\<close>

definition stampedCache :: "int \<Rightarrow> translationCache" where
  "stampedCache t =
     map (\<lambda>i. (replicate (Suc i) CHR ''k'', \<lparr> entry_text = ''text'', entry_timestamp = t, confidence = 1 \<rparr>))
       [0..<500]"

text \<open>Every status of the table that is not a loaded one records a usage of 0.\<close>

definition usage_inv :: "ModelManager \<Rightarrow> bool" where
  "usage_inv s = list_all (\<lambda>(k, status). isLoaded status \<or> memoryUsage status = 0) (modelStatus s)"


section \<open>The request queue is serial and first-in first-out\<close>

lemma serialFrom_append:
  "serialFrom c (xs @ ys) = (case serialFrom c xs of None \<Rightarrow> None | Some c' \<Rightarrow> serialFrom c' ys)"
  by (induction xs arbitrary: c) (auto split: option.splits)

lemma popped_append: "popped (xs @ ys) = popped xs @ popped ys"
  by (induction xs rule: popped.induct) auto

lemma submissions_append: "submissions (xs @ ys) = submissions xs @ submissions ys"
  by (induction xs rule: submissions.induct) auto

lemma queue_inv_new: "queue_inv new_RequestQueue"
  by (simp add: queue_inv_def new_RequestQueue_def)

lemma queue_inv_step: "queue_inv s \<Longrightarrow> queue_inv (step s e)"
  by (cases e; cases "current s" rule: openTask.cases)
     (auto simp: queue_inv_def execute_def processQueue_def drain_def loadSettled_def
        operationSettled_def loopResumes_def serialFrom_append
        split: option.splits list.splits phase.splits prod.splits if_splits)

lemma popped_step:
  "popped (trace (step s e)) @ requestQueue (step s e)
     = popped (trace s) @ requestQueue s @ submissions [e]"
  by (cases e)
     (auto simp: execute_def processQueue_def drain_def loadSettled_def
        operationSettled_def loopResumes_def popped_append
        split: option.splits list.splits phase.splits prod.splits if_splits)

lemma run_snoc: "run (events @ [e]) = step (run events) e"
  by (simp add: run_def)

lemma queue_inv_run: "queue_inv (run events)"
proof (induction events rule: rev_induct)
  case Nil
  show ?case by (simp add: run_def queue_inv_new)
next
  case (snoc e events)
  then show ?case by (simp add: run_snoc queue_inv_step)
qed

lemma popped_run: "popped (trace (run events)) @ requestQueue (run events) = submissions events"
proof (induction events rule: rev_induct)
  case Nil
  show ?case by (simp add: run_def new_RequestQueue_def)
next
  case (snoc e events)
  show ?case using snoc popped_step[of "run events" e]
    by (simp add: run_snoc submissions_append)
qed

text \<open>
  C2. Whatever calls of \<open>executeWithGemma\<close> and \<open>executeWithTTS\<close> and whatever settlements
  of loads and operations happen, in whatever order: the trace of the queue is serial (no task
  is popped and no operation body begins while another task is between popped and settled,
  whichever models the two tasks name), and the tasks are popped in the order of submission
  (the popped tasks followed by the waiting ones are the submissions in their order).
\<close>

theorem queue_serial_fifo:
  "serial (trace (run events))
   \<and> popped (trace (run events)) @ requestQueue (run events) = submissions events"
  using queue_inv_run[of events] popped_run[of events]
  by (simp add: serial_def queue_inv_def)

section \<open>The memory check of a load\<close>

lemma usage_update:
  "sum_list (map (\<lambda>(k, status). memoryUsage status) (AList.update k v al))
     = sum_list (map (\<lambda>(k, status). memoryUsage status) al)
       - (case map_of al k of None \<Rightarrow> 0 | Some v0 \<Rightarrow> memoryUsage v0) + memoryUsage v"
  by (induction al) auto

lemma usage_setModelStatus:
  "getCurrentMemoryUsage (setModelStatus k v s)
     = getCurrentMemoryUsage s - recordedUsage s k + memoryUsage v"
  by (simp add: getCurrentMemoryUsage_def setModelStatus_def usage_update recordedUsage_def
      getModelStatus_def)

lemma getModelStatus_set:
  "getModelStatus (setModelStatus k v s) k' = (if k' = k then Some v else getModelStatus s k')"
  by (simp add: getModelStatus_def setModelStatus_def update_conv')

lemma recordedUsage_set:
  "recordedUsage (setModelStatus k v s) k' = (if k' = k then memoryUsage v else recordedUsage s k')"
  by (simp add: recordedUsage_def getModelStatus_set)

lemma configOf_set: "configOf m (setModelStatus k v s) = configOf m s"
  by (cases m) (simp_all add: setModelStatus_def)

text \<open>
  C1, as the specification states it, fails twice. On a fresh manager whose translation model
  needs 600 MB the status is written as loading (\<open>loadModel_enter\<close>), and the memory check
  that rejects the load runs on that state: the resource is Loading before it is rejected.
  And with both models loaded, usage plus footprint is 406 + 256 > 512, yet a load of the
  translation model succeeds, through the early exit for a loaded model.
\<close>

theorem load_rejection_counterexample:
  "(case loadModel_enter Gemma 0 overBudget of
      Inl r \<Rightarrow> False
    | Inr s1 \<Rightarrow> statusIsLoading s1 ''gemma''
        \<and> fst (loadModel_try Gemma 0 s1) = Threw ''Insufficient memory for Gemma model'')
   \<and> getCurrentMemoryUsage bothLoaded + memoryLimit (GEMMA_CONFIG bothLoaded) > 512
   \<and> fst (loadModel_alone Gemma 5000 bothLoaded) = Returned"
  by (simp add: loadModel_alone_def loadModel_start_def loadModel_enter_def loadModel_try_def
      loadModel_catch_def loadModel_finish_def loadQuantizedModel_def checkMemoryAvailability_def
      getCurrentMemoryUsage_def statusIsLoaded_def statusIsLoading_def getModelStatus_def
      setModelStatus_def recordedUsage_def loadingStatus_def loadedStatus_def failedStatus_def
      scheduleModelUnload_def cancelUnloadTimer_def new_ModelManager_def
      overBudget_def bothLoaded_def)

text \<open>
  C1, amended. For a resource that is neither loaded nor loading and whose recorded usage is 0
  (as it is for every resource that is not loaded), with \<open>U\<close> the recorded usage and \<open>F\<close> the
  footprint: the call first writes the loading status; run alone it succeeds exactly when
  \<open>U + F \<le> 512\<close>; and when \<open>U + F > 512\<close> it fails with the insufficient-memory error, the
  recorded usage is still \<open>U\<close>, and the status of the resource is the failed one (not loaded,
  not loading, usage 0, the message recorded).
\<close>

theorem load_succeeds_iff_budget:
  assumes "\<not> statusIsLoaded s (modelKeyOf m)" and "\<not> statusIsLoading s (modelKeyOf m)"
    and "recordedUsage s (modelKeyOf m) = 0"
  shows "loadModel_enter m now s = Inr (setModelStatus (modelKeyOf m) (loadingStatus now) s)
    \<and> (fst (loadModel_alone m now s) = Returned)
        = (getCurrentMemoryUsage s + memoryLimit (configOf m s) \<le> 512)
    \<and> (512 < getCurrentMemoryUsage s + memoryLimit (configOf m s) \<longrightarrow>
         fst (loadModel_alone m now s) = Threw (insufficientMemory m)
         \<and> getCurrentMemoryUsage (snd (loadModel_alone m now s)) = getCurrentMemoryUsage s
         \<and> getModelStatus (snd (loadModel_alone m now s)) (modelKeyOf m)
             = Some (failedStatus now (insufficientMemory m)))"
  using assms
  by (auto simp: loadModel_alone_def loadModel_start_def loadModel_enter_def loadModel_try_def
      loadModel_catch_def checkMemoryAvailability_def usage_setModelStatus loadingStatus_def
      failedStatus_def loadQuantizedModel_def loadModel_finish_def
      getModelStatus_set recordedUsage_set configOf_set)

theorem load_succeeds_iff_budget_witness:
  "\<not> statusIsLoaded overBudget ''gemma'' \<and> \<not> statusIsLoading overBudget ''gemma''
   \<and> recordedUsage overBudget ''gemma'' = 0
   \<and> 512 < getCurrentMemoryUsage overBudget + memoryLimit (GEMMA_CONFIG overBudget)
   \<and> fst (loadModel_alone Gemma 0 overBudget) = Threw ''Insufficient memory for Gemma model''
   \<and> getCurrentMemoryUsage (snd (loadModel_alone Gemma 0 overBudget)) = 0
   \<and> fst (loadModel_alone TTS 0 overBudget) = Returned"
  using load_succeeds_iff_budget [of overBudget Gemma 0] load_succeeds_iff_budget [of overBudget TTS 0]
  by (simp add: loadModel_alone_def loadModel_start_def loadModel_enter_def loadModel_try_def
      loadModel_catch_def loadModel_finish_def loadQuantizedModel_def checkMemoryAvailability_def
      getCurrentMemoryUsage_def statusIsLoaded_def statusIsLoading_def getModelStatus_def
      setModelStatus_def recordedUsage_def loadingStatus_def loadedStatus_def failedStatus_def
      scheduleModelUnload_def cancelUnloadTimer_def new_ModelManager_def
      overBudget_def)

section \<open>One unload timer for the whole manager\<close>

lemma lastLoadedFrom_snoc:
  "lastLoadedFrom acc (calls @ [c])
     = (case c of LoadFinish m now \<Rightarrow> Some m | _ \<Rightarrow> lastLoadedFrom acc calls)"
  by (induction acc calls rule: lastLoadedFrom.induct) (auto split: call.splits)

lemma history_snoc: "history (calls @ [c]) = perform (history calls) c"
  by (simp add: history_def)

lemma manager_inv_new: "manager_inv new_ModelManager None"
  by (simp add: manager_inv_def new_ModelManager_def)

lemma manager_inv_perform:
  assumes "manager_inv s lastm"
  shows "manager_inv (perform s c) (case c of LoadFinish m now \<Rightarrow> Some m | _ \<Rightarrow> lastm)"
proof (cases c)
  case (LoadStart m now)
  then show ?thesis using assms
    by (auto simp: manager_inv_def loadModel_start_def loadModel_enter_def loadModel_try_def
        loadModel_catch_def setModelStatus_def loadQuantizedModel_def
        split: sum.splits list.splits if_splits)
next
  case (LoadFinish m now)
  then show ?thesis using assms
    by (cases m)
       (auto simp: manager_inv_def loadModel_finish_def setModelStatus_def scheduleModelUnload_def
          cancelUnloadTimer_def Let_def AList.delete_eq split: option.splits list.splits if_splits)
next
  case (TimeoutFires h now)
  then show ?thesis using assms
    by (auto simp: manager_inv_def fireTimeout_def unloadCallback_def unloadGemmaModel_def
        unloadTTSModel_def AList.delete_eq split: option.splits list.splits if_splits)
next
  case (AppStateChange a now)
  then show ?thesis using assms
    by (auto simp: manager_inv_def handleAppStateChange_def unloadModelsOnBackground_def
        cancelUnloadTimer_def unloadGemmaModel_def unloadTTSModel_def AList.delete_eq
        split: option.splits list.splits if_splits)
next
  case (UnloadGemma now)
  then show ?thesis using assms by (auto simp: manager_inv_def unloadGemmaModel_def)
next
  case (UnloadTTS now)
  then show ?thesis using assms by (auto simp: manager_inv_def unloadTTSModel_def)
next
  case (Cleanup now)
  then show ?thesis using assms
    by (auto simp: manager_inv_def cleanup_def cancelUnloadTimer_def unloadGemmaModel_def
        unloadTTSModel_def AList.delete_eq split: option.splits list.splits if_splits)
qed

lemma manager_inv_history: "manager_inv (history calls) (lastLoaded calls)"
proof (induction calls rule: rev_induct)
  case Nil
  show ?case by (simp add: history_def lastLoaded_def manager_inv_new)
next
  case (snoc c calls)
  show ?case using manager_inv_perform[OF snoc, of c]
    by (simp add: history_snoc lastLoaded_def lastLoadedFrom_snoc split: call.splits)
qed

text \<open>
  C9. In every history of the manager the runtime holds at most one pending unload timeout,
  for both models together; a pending timeout carries the key of the model whose load finished
  last; and when the load of a model finishes, whatever timeout was pending (for that model or
  for the other one) is gone and the one pending timeout is the new one, for the model just
  loaded, due after its \<open>unloadDelay\<close>.
\<close>

theorem single_unload_timer:
  "length (pendingTimeouts (history calls)) \<le> 1
   \<and> set (map (\<lambda>(h, due, k). k) (pendingTimeouts (history calls)))
        \<subseteq> set_option (map_option modelKeyOf (lastLoaded calls))
   \<and> pendingTimeouts (history (calls @ [LoadFinish m now]))
        = [(nextTimeout (history calls), now + unloadDelay (configOf m (history calls)), modelKeyOf m)]"
proof -
  have inv: "manager_inv (history calls) (lastLoaded calls)"
    by (rule manager_inv_history)
  have a: "length (pendingTimeouts (history calls)) \<le> 1"
    using inv by (auto simp: manager_inv_def split: list.splits)
  have b: "set (map (\<lambda>(h, due, k). k) (pendingTimeouts (history calls)))
        \<subseteq> set_option (map_option modelKeyOf (lastLoaded calls))"
    using inv by (auto simp: manager_inv_def split: list.splits)
  have c: "pendingTimeouts (history (calls @ [LoadFinish m now]))
        = [(nextTimeout (history calls), now + unloadDelay (configOf m (history calls)), modelKeyOf m)]"
    using inv
    by (auto simp: history_snoc manager_inv_def loadModel_finish_def setModelStatus_def
        scheduleModelUnload_def cancelUnloadTimer_def Let_def AList.delete_eq
        split: option.splits list.splits)
  show ?thesis using a b c by blast
qed

section \<open>Unloading: the background signal and the idle timer\<close>

lemma background_only_sets_flag:
  "handleAppStateChange ''background'' now (history calls) = (history calls)\<lparr> isBackgrounded := True \<rparr>"
  using manager_inv_history[of calls]
  by (simp add: manager_inv_def handleAppStateChange_def unloadModelsOnBackground_def
      unloadGemmaModel_def unloadTTSModel_def)

lemma timeout_keeps_status:
  "modelStatus (fireTimeout h now (history calls)) = modelStatus (history calls)"
  using manager_inv_history[of calls]
  by (simp add: manager_inv_def fireTimeout_def unloadCallback_def unloadGemmaModel_def
      unloadTTSModel_def split: option.splits)

lemma bothLoaded_history:
  "bothLoaded = history [LoadStart Gemma 0, LoadFinish Gemma 2000, LoadStart TTS 2000, LoadFinish TTS 4000]"
  by (simp add: bothLoaded_def history_def loadModel_alone_def loadModel_start_def loadModel_enter_def
      loadModel_try_def loadModel_catch_def loadModel_finish_def loadQuantizedModel_def
      checkMemoryAvailability_def getCurrentMemoryUsage_def statusIsLoaded_def statusIsLoading_def
      getModelStatus_def setModelStatus_def loadingStatus_def loadedStatus_def
      scheduleModelUnload_def cancelUnloadTimer_def new_ModelManager_def)

text \<open>
  C3 at its own example: two loaded models, and a cache of one high and two medium items.
  The background signal leaves both models reported as loaded, with their 406 MB still
  recorded: it changes nothing of the manager but the flag \<open>isBackgrounded\<close>, here and in
  every history, because the unload functions test \<open>gemmaModel\<close> and \<open>ttsModel\<close>, which no
  statement ever sets. The cache part holds: only the high item survives.
\<close>

theorem background_leaves_models_loaded:
  "isGemmaLoaded bothLoaded \<and> isTTSLoaded bothLoaded
   \<and> isGemmaLoaded (handleAppStateChange ''background'' 5000 bothLoaded)
   \<and> isTTSLoaded (handleAppStateChange ''background'' 5000 bothLoaded)
   \<and> getCurrentMemoryUsage (handleAppStateChange ''background'' 5000 bothLoaded) = 406
   \<and> handleAppStateChange ''background'' now (history calls) = (history calls)\<lparr> isBackgrounded := True \<rparr>
   \<and> map fst threeItems = [''h'', ''m1'', ''m2'']
   \<and> map fst (MemoryManager_handleAppStateChange ''background'' threeItems) = [''h'']"
proof -
  have 1: "handleAppStateChange ''background'' 5000 bothLoaded = bothLoaded\<lparr> isBackgrounded := True \<rparr>"
    unfolding bothLoaded_history by (rule background_only_sets_flag)
  have 2: "isGemmaLoaded bothLoaded \<and> isTTSLoaded bothLoaded \<and> getCurrentMemoryUsage bothLoaded = 406"
    by (simp add: bothLoaded_def isGemmaLoaded_def isTTSLoaded_def loadModel_alone_def
        loadModel_start_def loadModel_enter_def
        loadModel_try_def loadModel_catch_def loadModel_finish_def loadQuantizedModel_def
        checkMemoryAvailability_def getCurrentMemoryUsage_def statusIsLoaded_def statusIsLoading_def
        getModelStatus_def setModelStatus_def loadingStatus_def loadedStatus_def
        scheduleModelUnload_def cancelUnloadTimer_def new_ModelManager_def)
  have 3: "isGemmaLoaded (bothLoaded\<lparr> isBackgrounded := True \<rparr>) = isGemmaLoaded bothLoaded"
    "isTTSLoaded (bothLoaded\<lparr> isBackgrounded := True \<rparr>) = isTTSLoaded bothLoaded"
    "getCurrentMemoryUsage (bothLoaded\<lparr> isBackgrounded := True \<rparr>) = getCurrentMemoryUsage bothLoaded"
    by (simp_all add: isGemmaLoaded_def isTTSLoaded_def statusIsLoaded_def getModelStatus_def
        getCurrentMemoryUsage_def)
  have 4: "map fst threeItems = [''h'', ''m1'', ''m2'']
     \<and> map fst (MemoryManager_handleAppStateChange ''background'' threeItems) = [''h'']"
    by (simp add: threeItems_def addCacheItem_def checkMemoryThreshold_def usageRatio_def
        getMemoryInfo_def getUsedMemory_def getCacheSize_def getModelMemory_def getTotalMemory_def
        MEMORY_THRESHOLD_def MemoryManager_handleAppStateChange_def performAggressiveCleanup_def
        AList.delete_eq)
  show ?thesis using 1 2 3 4 background_only_sets_flag[of now calls] by simp
qed

text \<open>
  C5 at a concrete run: the translation model is loaded at time 0, the load finishes at 2000
  and arms the timeout for 302000. When it fires, with no load call in between, the model is
  still reported as loaded and its 256 MB are still recorded; in every history a firing
  timeout leaves the status table as it is. And a load call on the loaded model returns at
  once and changes nothing: \<open>lastUsed\<close> and the timeout stay as they are.
\<close>

theorem idle_timeout_leaves_model_loaded:
  "(let s = history [LoadStart Gemma 0, LoadFinish Gemma 2000]
    in isGemmaLoaded s \<and> pendingTimeouts s = [(1, 302000, ''gemma'')]
       \<and> pendingTimeouts (fireTimeout 1 302000 s) = []
       \<and> isGemmaLoaded (fireTimeout 1 302000 s)
       \<and> getCurrentMemoryUsage (fireTimeout 1 302000 s) = 256
       \<and> loadModel_start Gemma 100000 s = (Returned, s))
   \<and> modelStatus (fireTimeout h now (history calls)) = modelStatus (history calls)"
  using timeout_keeps_status[of h now calls]
  by (simp add: history_def isGemmaLoaded_def fireTimeout_def unloadCallback_def unloadGemmaModel_def
      loadModel_start_def loadModel_enter_def
      loadModel_try_def loadModel_catch_def loadModel_finish_def loadQuantizedModel_def
      checkMemoryAvailability_def getCurrentMemoryUsage_def statusIsLoaded_def statusIsLoading_def
      getModelStatus_def setModelStatus_def loadingStatus_def loadedStatus_def
      scheduleModelUnload_def cancelUnloadTimer_def new_ModelManager_def AList.delete_eq)

section \<open>No load timeout\<close>

text \<open>
  C6 fails for a translation model whose \<open>loadTimeout\<close> is 1000 ms: the load is suspended
  for 2000 ms, with the status loading, and then succeeds; it neither completes within the
  timeout nor fails.
\<close>

theorem load_timeout_counterexample:
  "loadTimeout (GEMMA_CONFIG shortTimeout) = 1000
   \<and> fst (loadModel_start Gemma 0 shortTimeout) = AwaitLoad 2000
   \<and> statusIsLoading (snd (loadModel_start Gemma 0 shortTimeout)) ''gemma''
   \<and> fst (loadModel_alone Gemma 0 shortTimeout) = Returned
   \<and> getModelStatus (snd (loadModel_alone Gemma 0 shortTimeout)) ''gemma'' = Some (loadedStatus 2000 256)"
  by (simp add: shortTimeout_def loadModel_alone_def loadModel_start_def loadModel_enter_def
      loadModel_try_def loadModel_catch_def loadModel_finish_def loadQuantizedModel_def
      checkMemoryAvailability_def getCurrentMemoryUsage_def statusIsLoaded_def statusIsLoading_def
      getModelStatus_def setModelStatus_def loadingStatus_def loadedStatus_def
      scheduleModelUnload_def cancelUnloadTimer_def new_ModelManager_def)

text \<open>
  C6, amended. \<open>loadTimeout\<close> is never read. A load of a resource that is neither loaded nor
  loading is either rejected at once with the insufficient-memory error, or suspended for the
  fixed 2000 ms of the simulated loader, whatever the timeout; a suspended load that resumes
  always succeeds and records the footprint. The shipped timeouts are above 2000 ms. A failure
  is recorded by one status write of the \<^verbatim>\<open>catch\<close> block: not loaded, not loading, usage 0,
  with the message; so nothing is committed for a failed load.
\<close>

theorem load_delay_is_fixed:
  assumes "\<not> statusIsLoaded s (modelKeyOf m)" and "\<not> statusIsLoading s (modelKeyOf m)"
  shows "(fst (loadModel_start m now s) = AwaitLoad 2000
          \<or> fst (loadModel_start m now s) = Threw (insufficientMemory m))
    \<and> fst (loadModel_finish m now' s') = Returned
    \<and> getModelStatus (snd (loadModel_finish m now' s')) (modelKeyOf m)
        = Some (loadedStatus now' (memoryLimit (configOf m s')))
    \<and> 2000 \<le> loadTimeout (GEMMA_CONFIG new_ModelManager)
    \<and> 2000 \<le> loadTimeout (TTS_CONFIG new_ModelManager)
    \<and> getModelStatus (snd (loadModel_catch m now msg s')) (modelKeyOf m)
        = Some \<lparr> isLoaded = False, isLoading = False, lastUsed = now, memoryUsage = 0, error = Some msg \<rparr>
    \<and> recordedUsage (snd (loadModel_catch m now msg s')) (modelKeyOf m) = 0"
  using assms
  by (auto simp: loadModel_start_def loadModel_enter_def loadModel_try_def loadModel_catch_def
      loadModel_finish_def loadQuantizedModel_def failedStatus_def new_ModelManager_def
      scheduleModelUnload_def cancelUnloadTimer_def Let_def getModelStatus_def setModelStatus_def
      update_conv' recordedUsage_def split: option.splits)

theorem load_delay_is_fixed_witness:
  "\<not> statusIsLoaded shortTimeout ''gemma'' \<and> \<not> statusIsLoading shortTimeout ''gemma''
   \<and> fst (loadModel_start Gemma 0 shortTimeout) = AwaitLoad 2000
   \<and> fst (loadModel_finish Gemma 2000 (snd (loadModel_start Gemma 0 shortTimeout))) = Returned"
  using load_delay_is_fixed [of shortTimeout Gemma 0 2000 "snd (loadModel_start Gemma 0 shortTimeout)"]
  by (simp add: shortTimeout_def loadModel_start_def loadModel_enter_def
      loadModel_try_def loadModel_catch_def loadModel_finish_def loadQuantizedModel_def
      checkMemoryAvailability_def getCurrentMemoryUsage_def statusIsLoaded_def statusIsLoading_def
      getModelStatus_def setModelStatus_def loadingStatus_def loadedStatus_def
      scheduleModelUnload_def cancelUnloadTimer_def new_ModelManager_def)

section \<open>The cleanup of the cache under memory pressure\<close>

lemma fold_delete_filter:
  "fold AList.delete ks items = filter (\<lambda>(k, v). k \<notin> set ks) items"
proof (induction ks arbitrary: items)
  case Nil
  show ?case by simp
next
  case (Cons a ks)
  have "fold AList.delete (a # ks) items = fold AList.delete ks (AList.delete a items)"
    by simp
  also have "\<dots> = filter (\<lambda>(k, v). k \<notin> set ks) (AList.delete a items)"
    by (rule Cons)
  also have "\<dots> = filter (\<lambda>(k, v). k \<notin> set (a # ks)) items"
    by (auto simp: AList.delete_eq intro: filter_cong)
  finally show ?case .
qed

lemma fold_delete_key_filter:
  "fold (\<lambda>item. AList.delete (key item)) xs items = filter (\<lambda>(k, v). k \<notin> key ` set xs) items"
proof (induction xs arbitrary: items)
  case Nil
  show ?case by simp
next
  case (Cons a xs)
  have "fold (\<lambda>item. AList.delete (key item)) (a # xs) items
      = fold (\<lambda>item. AList.delete (key item)) xs (AList.delete (key a) items)"
    by simp
  also have "\<dots> = filter (\<lambda>(k, v). k \<notin> key ` set xs) (AList.delete (key a) items)"
    by (rule Cons)
  also have "\<dots> = filter (\<lambda>(k, v). k \<notin> key ` set (a # xs)) items"
    by (auto simp: AList.delete_eq intro: filter_cong)
  finally show ?case .
qed

lemma removeExpired_filter:
  assumes "distinct (map fst items)"
  shows "removeExpiredCacheItems now items = filter (\<lambda>(k, item). \<not> expired now item) items"
proof -
  have "\<And>k item. (k, item) \<in> set items \<Longrightarrow>
      (k \<in> fst ` {x \<in> set items. case x of (k, item) \<Rightarrow> expired now item}) = expired now item"
  proof -
    fix k item assume in_items: "(k, item) \<in> set items"
    show "(k \<in> fst ` {x \<in> set items. case x of (k, item) \<Rightarrow> expired now item}) = expired now item"
    proof
      assume "k \<in> fst ` {x \<in> set items. case x of (k, item) \<Rightarrow> expired now item}"
      then obtain item' where "(k, item') \<in> set items" and e: "expired now item'" by auto
      with in_items assms have "item' = item" by (meson eq_key_imp_eq_value)
      with e show "expired now item" by simp
    next
      assume "expired now item"
      with in_items show "k \<in> fst ` {x \<in> set items. case x of (k, item) \<Rightarrow> expired now item}"
        by force
    qed
  qed
  then show ?thesis
    unfolding removeExpiredCacheItems_def Let_def fold_delete_filter expired_def[symmetric]
    by (intro filter_cong) auto
qed

lemma ceil_half: "nat \<lceil>rat_of_nat n * (5 / 10)\<rceil> = (n + 1) div 2"
proof -
  have "rat_of_nat n * (5 / 10) = of_int (int n) / of_int 2" by simp
  then have "\<lceil>rat_of_nat n * (5 / 10)\<rceil> = - (- int n div 2)"
    by (simp only: ceiling_divide_eq_div)
  then show ?thesis by simp
qed

lemma removeLow_filter:
  assumes "wf_items items"
  shows "removeLowPriorityItems items
    = filter (\<lambda>(k, item). item \<notin> set (take ((length (lowItems items) + 1) div 2)
                                         (sort_key timestamp (lowItems items)))) items"
proof -
  let ?rm = "take ((length (lowItems items) + 1) div 2) (sort_key timestamp (lowItems items))"
  have sub: "set ?rm \<subseteq> snd ` set items"
    using set_take_subset[of _ "sort_key timestamp (lowItems items)"] by (auto simp: lowItems_def)
  have keyed: "\<And>k item. (k, item) \<in> set items \<Longrightarrow> key item = k"
    using assms by (auto simp: wf_items_def list_all_iff)
  have dist: "distinct (map fst items)" using assms by (simp add: wf_items_def)
  have "\<And>k item. (k, item) \<in> set items \<Longrightarrow> (k \<in> key ` set ?rm) = (item \<in> set ?rm)"
  proof -
    fix k item assume in_items: "(k, item) \<in> set items"
    show "(k \<in> key ` set ?rm) = (item \<in> set ?rm)"
    proof
      assume "k \<in> key ` set ?rm"
      then obtain item' where r: "item' \<in> set ?rm" and k: "key item' = k" by auto
      from r sub obtain k' where "(k', item') \<in> set items" by auto
      with keyed k have "(k, item') \<in> set items" by auto
      with in_items dist have "item' = item" by (meson eq_key_imp_eq_value)
      with r show "item \<in> set ?rm" by simp
    next
      assume "item \<in> set ?rm"
      with keyed[OF in_items] show "k \<in> key ` set ?rm" by force
    qed
  qed
  then show ?thesis
    unfolding removeLowPriorityItems_def Let_def fold_delete_key_filter ceil_half lowItems_def[symmetric]
    by (intro filter_cong) auto
qed

lemma wf_items_filter: "wf_items items \<Longrightarrow> wf_items (filter P items)"
  by (auto simp: wf_items_def distinct_map_filter list_all_iff)

lemma wf_items_distinct_values:
  assumes "wf_items items"
  shows "distinct (map snd items)"
proof -
  have keyed: "\<And>k item. (k, item) \<in> set items \<Longrightarrow> key item = k"
    using assms by (auto simp: wf_items_def list_all_iff)
  have "inj_on snd (set items)"
  proof (rule inj_onI)
    fix x y assume x: "x \<in> set items" and y: "y \<in> set items" and eq: "snd x = snd y"
    have "key (snd x) = fst x" using keyed[of "fst x" "snd x"] x by simp
    moreover have "key (snd y) = fst y" using keyed[of "fst y" "snd y"] y by simp
    ultimately show "x = y" using eq by (simp add: prod_eq_iff)
  qed
  moreover have "distinct items"
    using assms by (auto simp: wf_items_def distinct_map)
  ultimately show ?thesis by (simp add: distinct_map)
qed

lemma sorted_take_le_drop:
  assumes "sorted (map f xs)" and "a \<in> set (take n xs)" and "b \<in> set (drop n xs)"
  shows "f a \<le> f b"
proof -
  have "sorted (map f (take n xs) @ map f (drop n xs))"
    using assms(1) by (simp flip: map_append)
  then show ?thesis using assms(2,3) by (auto simp: sorted_append)
qed

lemma distinct_drop_set:
  assumes "distinct xs"
  shows "set (drop n xs) = set xs - set (take n xs)"
proof -
  have "distinct (take n xs @ drop n xs)" using assms by simp
  then have "set (take n xs) \<inter> set (drop n xs) = {}" by (simp only: distinct_append)
  moreover have "set xs = set (take n xs) \<union> set (drop n xs)"
    by (metis append_take_drop_id set_append)
  ultimately show ?thesis by auto
qed

lemma map_snd_filter:
  "map snd (filter (\<lambda>(k, v). P v) xs) = filter P (map snd xs)"
  by (induction xs) auto

lemma removeLow_properties:
  assumes wf: "wf_items items"
  defines "r \<equiv> removeLowPriorityItems items"
  shows "filter (\<lambda>(k, item). priority item \<noteq> 3) r = filter (\<lambda>(k, item). priority item \<noteq> 3) items"
    and "length (lowItems r) = length (lowItems items) - (length (lowItems items) + 1) div 2"
    and "\<forall>a \<in> set (lowItems items) - set (lowItems r). \<forall>b \<in> set (lowItems r). timestamp a \<le> timestamp b"
    and "set r \<subseteq> set items"
proof -
  let ?n = "(length (lowItems items) + 1) div 2"
  let ?sorted = "sort_key timestamp (lowItems items)"
  let ?rm = "take ?n ?sorted"
  have r: "r = filter (\<lambda>(k, item). item \<notin> set ?rm) items"
    unfolding r_def by (rule removeLow_filter[OF wf])
  have rm_low: "\<And>item. item \<in> set ?rm \<Longrightarrow> priority item = 3"
  proof -
    fix item assume "item \<in> set ?rm"
    then have "item \<in> set ?sorted" by (rule in_set_takeD)
    then show "priority item = 3" by (simp add: lowItems_def)
  qed
  show "filter (\<lambda>(k, item). priority item \<noteq> 3) r = filter (\<lambda>(k, item). priority item \<noteq> 3) items"
  proof -
    have "filter (\<lambda>(k, item). priority item \<noteq> 3) (filter (\<lambda>(k, item). item \<notin> set ?rm) items)
        = filter (\<lambda>x. (case x of (k, item) \<Rightarrow> item \<notin> set ?rm)
                    \<and> (case x of (k, item) \<Rightarrow> priority item \<noteq> 3)) items"
      by (rule filter_filter)
    also have "\<dots> = filter (\<lambda>(k, item). priority item \<noteq> 3) items"
    proof (rule filter_cong[OF refl])
      fix x assume "x \<in> set items"
      show "((case x of (k, item) \<Rightarrow> item \<notin> set ?rm) \<and> (case x of (k, item) \<Rightarrow> priority item \<noteq> 3))
          = (case x of (k, item) \<Rightarrow> priority item \<noteq> 3)"
        using rm_low by (cases x) (simp only: prod.case, blast)
    qed
    finally show ?thesis unfolding r .
  qed
  show "set r \<subseteq> set items" unfolding r by auto
  have "map snd (filter (\<lambda>(k, item). item \<notin> set ?rm) items)
      = filter (\<lambda>item. item \<notin> set ?rm) (map snd items)"
    by (rule map_snd_filter)
  then have "lowItems r = filter (\<lambda>item. priority item = 3)
      (filter (\<lambda>item. item \<notin> set ?rm) (map snd items))"
    unfolding r by (simp only: lowItems_def)
  also have "\<dots> = filter (\<lambda>item. item \<notin> set ?rm) (filter (\<lambda>item. priority item = 3) (map snd items))"
    by (simp only: filter_filter conj_commute)
  finally have low_r: "lowItems r = filter (\<lambda>item. item \<notin> set ?rm) (lowItems items)"
    by (simp only: lowItems_def)
  have dist: "distinct (lowItems items)"
    unfolding lowItems_def using wf_items_distinct_values[OF wf] by simp
  then have dsorted: "distinct ?sorted" by simp
  have kept: "set (lowItems r) = set (drop ?n ?sorted)"
    unfolding low_r distinct_drop_set[OF dsorted] by auto
  have "distinct (lowItems r)" unfolding low_r using dist by simp
  then have "length (lowItems r) = card (set (drop ?n ?sorted))"
    using kept distinct_card by metis
  also have "\<dots> = length (drop ?n ?sorted)"
    using dsorted by (simp add: distinct_card)
  finally show "length (lowItems r) = length (lowItems items) - ?n" by simp
  have removed: "set (lowItems items) - set (lowItems r) \<subseteq> set ?rm"
    unfolding low_r by auto
  have "sorted (map timestamp ?sorted)" by simp
  then show "\<forall>a \<in> set (lowItems items) - set (lowItems r). \<forall>b \<in> set (lowItems r). timestamp a \<le> timestamp b"
    using removed kept sorted_take_le_drop[of timestamp ?sorted _ ?n] by blast
qed

text \<open>
  C4 fails. In its own example, four items of 150 bytes, the ratio never passes the threshold
  (used memory is 512 + 600 + 256 of 4096 or 8192) and nothing is removed: the cache holds
  600 bytes, not 300. With two medium items over the threshold and no low item, the pass
  removes nothing: it never moves on to medium items. With two low items over the threshold
  the pass removes the older one only, although the ratio is still over the threshold.
\<close>

theorem cleanup_counterexample:
  "map fst (fourItems ''ios'') = [''a'', ''b'', ''c'', ''d''] \<and> getCacheSize (fourItems ''ios'') = 600
   \<and> usageRatio ''ios'' twoMedium > MEMORY_THRESHOLD
   \<and> checkMemoryThreshold ''ios'' 10 twoMedium = twoMedium
   \<and> usageRatio ''ios'' twoLow > MEMORY_THRESHOLD
   \<and> map fst (checkMemoryThreshold ''ios'' 10 twoLow) = [''l2'']
   \<and> usageRatio ''ios'' (checkMemoryThreshold ''ios'' 10 twoLow) > MEMORY_THRESHOLD"
  by (simp add: fourItems_def twoMedium_def twoLow_def addCacheItem_def checkMemoryThreshold_def
      performMemoryCleanup_def removeExpiredCacheItems_def removeLowPriorityItems_def
      usageRatio_def getMemoryInfo_def getUsedMemory_def getCacheSize_def getModelMemory_def
      getTotalMemory_def MEMORY_THRESHOLD_def CACHE_EXPIRY_def AList.delete_eq)

text \<open>
  C4, amended. The ratio is (512 + bytes in the cache + 256) over 4096 on iOS and over 8192
  elsewhere. While it is not above 0.8 the cache is left as it is. When it is above 0.8 the
  pass removes every item older than \<open>CACHE_EXPIRY\<close>; if the ratio is then still above 0.8 it
  removes, of the \<open>n\<close> low items left, the \<open>(n + 1) div 2\<close> oldest, and nothing else: every
  item that is not low stays, and no removed low item is younger than a low item that stays.
  In the example of four items of 150 bytes each, on either platform, nothing is removed and
  the cache holds 600 bytes.
\<close>

theorem cleanup_removes_expired_then_half_of_low:
  assumes "wf_items items"
  shows "(\<not> usageRatio os items > MEMORY_THRESHOLD \<longrightarrow> checkMemoryThreshold os now items = items)
    \<and> (usageRatio os items > MEMORY_THRESHOLD \<longrightarrow>
         (let items1 = filter (\<lambda>(k, item). \<not> expired now item) items;
              r = checkMemoryThreshold os now items
          in (\<not> usageRatio os items1 > MEMORY_THRESHOLD \<longrightarrow> r = items1)
           \<and> (usageRatio os items1 > MEMORY_THRESHOLD \<longrightarrow>
                filter (\<lambda>(k, item). priority item \<noteq> 3) r = filter (\<lambda>(k, item). priority item \<noteq> 3) items1
                \<and> length (lowItems r) = length (lowItems items1) - (length (lowItems items1) + 1) div 2
                \<and> (\<forall>a \<in> set (lowItems items1) - set (lowItems r). \<forall>b \<in> set (lowItems r).
                      timestamp a \<le> timestamp b)
                \<and> set r \<subseteq> set items1)))
    \<and> usageRatio os items
        = of_int (512 + getCacheSize items + 256) / of_int (if os = ''ios'' then 4096 else 8192)
    \<and> map fst (fourItems ''ios'') = [''a'', ''b'', ''c'', ''d''] \<and> getCacheSize (fourItems ''ios'') = 600
    \<and> map fst (fourItems ''android'') = [''a'', ''b'', ''c'', ''d'']
    \<and> getCacheSize (fourItems ''android'') = 600"
proof -
  let ?items1 = "filter (\<lambda>(k, item). \<not> expired now item) items"
  have exp: "removeExpiredCacheItems now items = ?items1"
    using assms by (simp add: removeExpired_filter wf_items_def)
  have wf1: "wf_items ?items1" using assms by (rule wf_items_filter)
  have a: "\<not> usageRatio os items > MEMORY_THRESHOLD \<longrightarrow> checkMemoryThreshold os now items = items"
    by (simp add: checkMemoryThreshold_def)
  have b: "usageRatio os items > MEMORY_THRESHOLD \<Longrightarrow> \<not> usageRatio os ?items1 > MEMORY_THRESHOLD
      \<Longrightarrow> checkMemoryThreshold os now items = ?items1"
    by (simp add: checkMemoryThreshold_def performMemoryCleanup_def exp)
  have c: "usageRatio os items > MEMORY_THRESHOLD \<Longrightarrow> usageRatio os ?items1 > MEMORY_THRESHOLD
      \<Longrightarrow> checkMemoryThreshold os now items = removeLowPriorityItems ?items1"
    by (simp add: checkMemoryThreshold_def performMemoryCleanup_def exp)
  have d: "usageRatio os items
        = of_int (512 + getCacheSize items + 256) / of_int (if os = ''ios'' then 4096 else 8192)"
    by (simp add: usageRatio_def getMemoryInfo_def getUsedMemory_def getModelMemory_def getTotalMemory_def)
  have e: "map fst (fourItems ''ios'') = [''a'', ''b'', ''c'', ''d''] \<and> getCacheSize (fourItems ''ios'') = 600
    \<and> map fst (fourItems ''android'') = [''a'', ''b'', ''c'', ''d'']
    \<and> getCacheSize (fourItems ''android'') = 600"
    by (simp add: fourItems_def addCacheItem_def checkMemoryThreshold_def
      usageRatio_def getMemoryInfo_def getUsedMemory_def getCacheSize_def getModelMemory_def
      getTotalMemory_def MEMORY_THRESHOLD_def)
  show ?thesis
    using a b c d e removeLow_properties[OF wf1] by (simp add: Let_def)
qed

theorem cleanup_removes_expired_then_half_of_low_witness:
  "wf_items lowLowMedium \<and> usageRatio ''ios'' lowLowMedium > MEMORY_THRESHOLD
   \<and> filter (\<lambda>(k, item). \<not> expired 10 item) lowLowMedium = lowLowMedium
   \<and> map fst (checkMemoryThreshold ''ios'' 10 lowLowMedium) = [''l2'', ''m'']
   \<and> length (lowItems (checkMemoryThreshold ''ios'' 10 lowLowMedium)) = 1"
  using cleanup_removes_expired_then_half_of_low [of lowLowMedium "''ios''" 10]
  by (simp add: lowLowMedium_def twoLow_def wf_items_def expired_def lowItems_def checkMemoryThreshold_def
      performMemoryCleanup_def removeExpiredCacheItems_def removeLowPriorityItems_def
      usageRatio_def getMemoryInfo_def getUsedMemory_def getCacheSize_def getModelMemory_def
      getTotalMemory_def MEMORY_THRESHOLD_def CACHE_EXPIRY_def AList.delete_eq)

section \<open>Lookup and expiry\<close>

lemma length_delete_present:
  "distinct (map fst al) \<Longrightarrow> map_of al k = Some v \<Longrightarrow> Suc (length (AList.delete k al)) = length al"
proof (induction al)
  case Nil
  then show ?case by simp
next
  case (Cons a al)
  show ?case
  proof (cases "fst a = k")
    case True
    then have "k \<notin> fst ` set al" using Cons.prems(1) by auto
    then have "AList.delete k al = al" by (rule AList.delete_id)
    with True show ?thesis by (cases a) (simp add: AList.delete_eq)
  next
    case False
    then have "map_of al k = Some v" using Cons.prems(2) by (cases a) (simp split: if_splits)
    moreover have "distinct (map fst al)" using Cons.prems(1) by simp
    ultimately have "Suc (length (AList.delete k al)) = length al" by (rule Cons.IH[rotated])
    with False show ?thesis by (cases a) (simp add: AList.delete_eq)
  qed
qed

text \<open>
  C8 fails for the lookup of the memory manager: \<open>getCacheItem\<close> reads the map and nothing
  else. An item added at time 0 is returned whenever it is looked up, also two hours later,
  past \<open>CACHE_EXPIRY\<close>; the lookup removes nothing, and the statistics still count its bytes.
\<close>

theorem lookup_counterexample:
  "getCacheItem staleItems ''k'' = Some \<lparr> key = ''k'', item_size = 5, timestamp = 0, priority = 2 \<rparr>
   \<and> expired 7200000 \<lparr> key = ''k'', item_size = 5, timestamp = 0, priority = 2 \<rparr>
   \<and> totalItems (getCacheStats staleItems) = 1 \<and> totalSize (getCacheStats staleItems) = 5"
  by (simp add: staleItems_def getCacheItem_def getCacheStats_def expired_def CACHE_EXPIRY_def
      addCacheItem_def checkMemoryThreshold_def usageRatio_def getMemoryInfo_def getUsedMemory_def
      getCacheSize_def getModelMemory_def getTotalMemory_def MEMORY_THRESHOLD_def)

text \<open>
  C8, amended to the lookup of the translation cache, \<open>getFromCache\<close>, whose time to live is
  \<open>CACHE_EXPIRY_HOURS\<close> hours for every entry. While the age of an entry is below it, the
  lookup returns the text and leaves the cache as it is. Once the age reaches it, the lookup
  returns nothing and removes the entry: the key is gone, the statistics count one entry (and
  100 units) less, and a second lookup, at any time, returns nothing and leaves the cache, and
  so the statistics, as they are.
\<close>

theorem translation_lookup_expires:
  assumes "distinct (map fst cache)" and "map_of cache k = Some entry"
  shows "(now - entry_timestamp entry < CACHE_EXPIRY_HOURS * 3600000 \<longrightarrow>
            getFromCache k now cache = (Some (entry_text entry), cache))
    \<and> (now - entry_timestamp entry \<ge> CACHE_EXPIRY_HOURS * 3600000 \<longrightarrow>
          fst (getFromCache k now cache) = None
          \<and> map_of (snd (getFromCache k now cache)) k = None
          \<and> translationCacheStats (snd (getFromCache k now cache))
              = (length cache - 1, (length cache - 1) * 100)
          \<and> getFromCache k now' (snd (getFromCache k now cache))
              = (None, snd (getFromCache k now cache)))"
proof -
  have len: "length (AList.delete k cache) = length cache - 1"
    using length_delete_present[OF assms] by simp
  have gone: "map_of (AList.delete k cache) k = None"
    by (simp add: AList.delete_conv')
  show ?thesis using assms(2) len gone
    by (simp add: getFromCache_def translationCacheStats_def)
qed

theorem translation_lookup_expires_witness:
  "distinct (map fst oneTranslation)
   \<and> getFromCache ''translation_en_hi_99162322'' 86399999 oneTranslation = (Some ''namaste'', oneTranslation)
   \<and> getFromCache ''translation_en_hi_99162322'' 86400000 oneTranslation = (None, [])
   \<and> translationCacheStats (snd (getFromCache ''translation_en_hi_99162322'' 86400000 oneTranslation)) = (0, 0)"
  using translation_lookup_expires [of oneTranslation "''translation_en_hi_99162322''"
      "\<lparr> entry_text = ''namaste'', entry_timestamp = 0, confidence = 85 / 100 \<rparr>" 86399999 0]
    translation_lookup_expires [of oneTranslation "''translation_en_hi_99162322''"
      "\<lparr> entry_text = ''namaste'', entry_timestamp = 0, confidence = 85 / 100 \<rparr>" 86400000 0]
  by (simp add: oneTranslation_def addToCache_def MAX_CACHE_SIZE_def getFromCache_def
      CACHE_EXPIRY_HOURS_def translationCacheStats_def AList.delete_eq)

section \<open>The size of the translation cache\<close>

lemma oldestEntry_none_older:
  "list_all (\<lambda>(k, entry). t \<le> entry_timestamp entry) cache \<Longrightarrow> oldestEntry cache k0 t = (k0, t)"
  by (induction cache k0 t rule: oldestEntry.induct) auto

lemma length_update_absent:
  "map_of al k = None \<Longrightarrow> length (AList.update k v al) = Suc (length al)"
  by (induction al) (auto split: if_splits)

lemma addToCache_no_older_entry:
  assumes "list_all (\<lambda>(k, entry). now \<le> entry_timestamp entry) cache" and "map_of cache k = None"
  shows "length (addToCache k txt conf now cache) = Suc (length cache)"
  using assms
  by (simp add: addToCache_def evictOldestCacheEntry_def oldestEntry_none_older length_update_absent)

lemma stampedCache_facts:
  "length (stampedCache t) = 500"
  "list_all (\<lambda>(k, entry). t \<le> entry_timestamp entry) (stampedCache t)"
  "map_of (stampedCache t) ''translation_en_hi_99162322'' = None"
  by (auto simp: stampedCache_def list_all_iff map_of_eq_None_iff)

text \<open>
  C10 at a cache that holds 500 entries, none of them older than the present reading of the
  clock: \<open>evictOldestCacheEntry\<close> starts its search from \<^verbatim>\<open>Date.now()\<close> and the empty key,
  finds no entry below that time and removes nothing, and the insert of a new key leaves 501
  entries.
\<close>

theorem cache_exceeds_max_size:
  "length (stampedCache 1000) = MAX_CACHE_SIZE
   \<and> evictOldestCacheEntry 1000 (stampedCache 1000) = stampedCache 1000
   \<and> length (addToCache ''translation_en_hi_99162322'' ''namaste'' (85 / 100) 1000 (stampedCache 1000)) = 501"
proof -
  have older: "list_all (\<lambda>(k, entry). 1000 \<le> entry_timestamp entry) (stampedCache 1000)"
    by (rule stampedCache_facts(2))
  have absent: "map_of (stampedCache 1000) ''translation_en_hi_99162322'' = None"
    by (rule stampedCache_facts(3))
  have 1: "length (stampedCache 1000) = MAX_CACHE_SIZE"
    by (simp add: stampedCache_facts(1) MAX_CACHE_SIZE_def)
  have 2: "evictOldestCacheEntry 1000 (stampedCache 1000) = stampedCache 1000"
    by (simp add: evictOldestCacheEntry_def oldestEntry_none_older[OF older])
  have 3: "length (addToCache ''translation_en_hi_99162322'' ''namaste'' (85 / 100) 1000 (stampedCache 1000))
      = Suc (length (stampedCache 1000))"
    using older absent by (rule addToCache_no_older_entry)
  show ?thesis using 1 2 3 by (simp add: stampedCache_facts(1))
qed

section \<open>What the hypotheses of the statements rest on\<close>

text \<open>
  In every history, a model that is not reported as loaded has a recorded usage of 0: the
  third hypothesis of the statement on the memory check holds whenever the first does.
\<close>

lemma list_all_update:
  "list_all P al \<Longrightarrow> P (k, v) \<Longrightarrow> list_all P (AList.update k v al)"
  by (induction al) auto

lemma usage_inv_set:
  "usage_inv s \<Longrightarrow> isLoaded v \<or> memoryUsage v = 0 \<Longrightarrow> usage_inv (setModelStatus k v s)"
  by (simp add: usage_inv_def setModelStatus_def list_all_update)

lemma usage_inv_perform:
  assumes "usage_inv s"
  shows "usage_inv (perform s c)"
proof -
  have frame: "\<And>f. modelStatus (f s) = modelStatus s \<Longrightarrow> usage_inv (f s)"
    using assms by (simp add: usage_inv_def)
  have unloadG: "\<And>now s'. usage_inv s' \<Longrightarrow> usage_inv (unloadGemmaModel now s')"
    by (auto simp: unloadGemmaModel_def unloadedStatus_def usage_inv_def setModelStatus_def
        intro!: list_all_update)
  have unloadT: "\<And>now s'. usage_inv s' \<Longrightarrow> usage_inv (unloadTTSModel now s')"
    by (auto simp: unloadTTSModel_def unloadedStatus_def usage_inv_def setModelStatus_def
        intro!: list_all_update)
  have cancel: "\<And>s'. usage_inv s' \<Longrightarrow> usage_inv (cancelUnloadTimer s')"
    by (auto simp: cancelUnloadTimer_def usage_inv_def split: option.splits)
  show ?thesis
  proof (cases c)
    case (LoadStart m now)
    then show ?thesis using assms
      by (auto simp: loadModel_start_def loadModel_enter_def loadModel_try_def loadModel_catch_def
          loadQuantizedModel_def loadingStatus_def failedStatus_def intro!: usage_inv_set)
  next
    case (LoadFinish m now)
    have "usage_inv (setModelStatus (modelKeyOf m) (loadedStatus now (memoryLimit (configOf m s))) s)"
      using assms by (auto simp: loadedStatus_def intro!: usage_inv_set)
    then show ?thesis using LoadFinish
      by (auto simp: loadModel_finish_def scheduleModelUnload_def Let_def cancelUnloadTimer_def
          usage_inv_def split: option.splits)
  next
    case (TimeoutFires h now)
    have "usage_inv (s\<lparr> pendingTimeouts := AList.delete h (pendingTimeouts s) \<rparr>)"
      using assms by (simp add: usage_inv_def)
    then have "\<And>k. usage_inv (unloadCallback k now (s\<lparr> pendingTimeouts := AList.delete h (pendingTimeouts s) \<rparr>))"
      by (simp add: unloadCallback_def unloadG unloadT)
    then show ?thesis using TimeoutFires assms
      by (auto simp: fireTimeout_def split: option.splits)
  next
    case (AppStateChange a now)
    have "usage_inv (s\<lparr> isBackgrounded := True \<rparr>)" "usage_inv (s\<lparr> isBackgrounded := False \<rparr>)"
      using assms by (simp_all add: usage_inv_def)
    then show ?thesis using AppStateChange assms
      by (auto simp: handleAppStateChange_def unloadModelsOnBackground_def
          intro!: unloadG unloadT cancel)
  next
    case (UnloadGemma now)
    then show ?thesis using assms by (simp add: unloadG)
  next
    case (UnloadTTS now)
    then show ?thesis using assms by (simp add: unloadT)
  next
    case (Cleanup now)
    then show ?thesis using assms by (simp add: cleanup_def unloadG unloadT cancel)
  qed
qed

lemma usage_inv_history: "usage_inv (history calls)"
proof (induction calls rule: rev_induct)
  case Nil
  show ?case by (simp add: history_def usage_inv_def new_ModelManager_def)
next
  case (snoc c calls)
  then show ?case by (simp add: history_snoc usage_inv_perform)
qed

lemma unloaded_records_no_usage:
  assumes "\<not> statusIsLoaded (history calls) k"
  shows "recordedUsage (history calls) k = 0"
proof (cases "map_of (modelStatus (history calls)) k")
  case None
  then show ?thesis by (simp add: recordedUsage_def getModelStatus_def)
next
  case (Some status)
  then have "(k, status) \<in> set (modelStatus (history calls))" by (rule map_of_SomeD)
  then have "isLoaded status \<or> memoryUsage status = 0"
    using usage_inv_history[of calls] by (auto simp: usage_inv_def list_all_iff)
  moreover have "\<not> isLoaded status"
    using assms Some by (simp add: statusIsLoaded_def getModelStatus_def)
  ultimately show ?thesis using Some by (simp add: recordedUsage_def getModelStatus_def)
qed

text \<open>The cache of the memory manager stays well formed under \<open>addCacheItem\<close>.\<close>

lemma wf_items_removeLow: "wf_items items \<Longrightarrow> wf_items (removeLowPriorityItems items)"
  by (simp add: removeLow_filter wf_items_filter)

lemma wf_items_checkMemoryThreshold:
  assumes "wf_items items"
  shows "wf_items (checkMemoryThreshold os now items)"
proof -
  have "removeExpiredCacheItems now items = filter (\<lambda>(k, item). \<not> expired now item) items"
    using assms by (simp add: removeExpired_filter wf_items_def)
  then have "wf_items (removeExpiredCacheItems now items)"
    using assms by (simp add: wf_items_filter)
  then show ?thesis using assms
    by (simp add: checkMemoryThreshold_def performMemoryCleanup_def Let_def wf_items_removeLow)
qed

lemma wf_items_addCacheItem:
  assumes "wf_items items"
  shows "wf_items (addCacheItem k d prio os now items)"
proof -
  have "wf_items (AList.update k \<lparr> key = k, item_size = estimateDataSize d, timestamp = now,
      priority = prio \<rparr> items)"
    using assms by (simp add: wf_items_def distinct_update list_all_update)
  then show ?thesis by (simp add: addCacheItem_def wf_items_checkMemoryThreshold)
qed

text \<open>
  The translation cache keeps distinct keys, and it stays within \<open>MAX_CACHE_SIZE\<close> under an
  insert whenever, being full, it holds an entry older than the clock reading (its keys are
  never empty: they start with \<^verbatim>\<open>translation_\<close>).
\<close>

lemma distinct_addToCache:
  "distinct (map fst cache) \<Longrightarrow> distinct (map fst (addToCache k txt conf now cache))"
  by (simp add: addToCache_def evictOldestCacheEntry_def distinct_update distinct_delete
      split: prod.splits)

lemma distinct_getFromCache:
  "distinct (map fst cache) \<Longrightarrow> distinct (map fst (snd (getFromCache k now cache)))"
  by (simp add: getFromCache_def distinct_delete split: option.splits)

lemma oldestEntry_key:
  "fst (oldestEntry cache k0 t) = k0 \<or> fst (oldestEntry cache k0 t) \<in> fst ` set cache"
  by (induction cache k0 t rule: oldestEntry.induct) auto

lemma oldestEntry_finds_older:
  "\<exists>(k, entry) \<in> set cache. entry_timestamp entry < t \<Longrightarrow> fst (oldestEntry cache k0 t) \<in> fst ` set cache"
proof (induction cache k0 t rule: oldestEntry.induct)
  case (1 oldestKey oldestTime)
  then show ?case by simp
next
  case (2 k entry rest oldestKey oldestTime)
  show ?case
  proof (cases "entry_timestamp entry < oldestTime")
    case True
    then show ?thesis using oldestEntry_key[of rest k "entry_timestamp entry"] by auto
  next
    case False
    then have "\<exists>(k, entry) \<in> set rest. entry_timestamp entry < oldestTime" using 2(3) by auto
    then show ?thesis using False 2(2) by auto
  qed
qed

lemma length_update_le: "length (AList.update k v al) \<le> Suc (length al)"
  by (induction al) auto

lemma addToCache_within_max_size:
  assumes "distinct (map fst cache)" and "length cache \<le> MAX_CACHE_SIZE" and "[] \<notin> fst ` set cache"
    and "length cache = MAX_CACHE_SIZE \<Longrightarrow> \<exists>(k, entry) \<in> set cache. entry_timestamp entry < now"
  shows "length (addToCache k txt conf now cache) \<le> MAX_CACHE_SIZE"
proof (cases "length cache = MAX_CACHE_SIZE")
  case False
  then have "length cache < MAX_CACHE_SIZE" using assms(2) by simp
  then show ?thesis
    using length_update_le[of k _ cache] by (simp add: addToCache_def) (meson Suc_leI le_trans)
next
  case True
  let ?old = "fst (oldestEntry cache [] now)"
  have present: "?old \<in> fst ` set cache" using assms(4)[OF True] by (rule oldestEntry_finds_older)
  then have nonempty: "?old \<noteq> []" using assms(3) by metis
  from present obtain v where "map_of cache ?old = Some v"
    by (metis domD dom_map_of_conv_image_fst)
  then have "Suc (length (AList.delete ?old cache)) = length cache"
    using assms(1) by (simp add: length_delete_present)
  then have "Suc (length (evictOldestCacheEntry now cache)) = length cache"
    using nonempty by (simp add: evictOldestCacheEntry_def case_prod_beta)
  then show ?thesis
    using True length_update_le[of k _ "evictOldestCacheEntry now cache"]
    by (simp add: addToCache_def)
qed

section \<open>Waiting for a load in flight\<close>

lemma waitForModelLoad_Some:
  "(waitForModelLoad k polls \<noteq> None) = (\<exists>p \<in> set polls. checkStatus k p)"
  by (induction polls) auto

lemma status_inv_set:
  "status_inv s \<Longrightarrow> \<not> isLoading v \<or> (\<not> isLoaded v \<and> error v = None)
     \<Longrightarrow> status_inv (setModelStatus k v s)"
  by (simp add: status_inv_def setModelStatus_def list_all_update)

lemma status_inv_perform:
  assumes "status_inv s"
  shows "status_inv (perform s c)"
proof -
  have unloadG: "\<And>now s'. status_inv s' \<Longrightarrow> status_inv (unloadGemmaModel now s')"
    by (auto simp: unloadGemmaModel_def unloadedStatus_def status_inv_def setModelStatus_def
        intro!: list_all_update)
  have unloadT: "\<And>now s'. status_inv s' \<Longrightarrow> status_inv (unloadTTSModel now s')"
    by (auto simp: unloadTTSModel_def unloadedStatus_def status_inv_def setModelStatus_def
        intro!: list_all_update)
  have cancel: "\<And>s'. status_inv s' \<Longrightarrow> status_inv (cancelUnloadTimer s')"
    by (auto simp: cancelUnloadTimer_def status_inv_def split: option.splits)
  show ?thesis
  proof (cases c)
    case (LoadStart m now)
    then show ?thesis using assms
      by (auto simp: loadModel_start_def loadModel_enter_def loadModel_try_def loadModel_catch_def
          loadQuantizedModel_def loadingStatus_def failedStatus_def intro!: status_inv_set)
  next
    case (LoadFinish m now)
    have "status_inv (setModelStatus (modelKeyOf m) (loadedStatus now (memoryLimit (configOf m s))) s)"
      using assms by (auto simp: loadedStatus_def intro!: status_inv_set)
    then show ?thesis using LoadFinish
      by (auto simp: loadModel_finish_def scheduleModelUnload_def Let_def cancelUnloadTimer_def
          status_inv_def split: option.splits)
  next
    case (TimeoutFires h now)
    have "status_inv (s\<lparr> pendingTimeouts := AList.delete h (pendingTimeouts s) \<rparr>)"
      using assms by (simp add: status_inv_def)
    then have "\<And>k. status_inv (unloadCallback k now (s\<lparr> pendingTimeouts := AList.delete h (pendingTimeouts s) \<rparr>))"
      by (simp add: unloadCallback_def unloadG unloadT)
    then show ?thesis using TimeoutFires assms
      by (auto simp: fireTimeout_def split: option.splits)
  next
    case (AppStateChange a now)
    have "status_inv (s\<lparr> isBackgrounded := True \<rparr>)" "status_inv (s\<lparr> isBackgrounded := False \<rparr>)"
      using assms by (simp_all add: status_inv_def)
    then show ?thesis using AppStateChange assms
      by (auto simp: handleAppStateChange_def unloadModelsOnBackground_def
          intro!: unloadG unloadT cancel)
  next
    case (UnloadGemma now)
    then show ?thesis using assms by (simp add: unloadG)
  next
    case (UnloadTTS now)
    then show ?thesis using assms by (simp add: unloadT)
  next
    case (Cleanup now)
    then show ?thesis using assms by (simp add: cleanup_def unloadG unloadT cancel)
  qed
qed

lemma status_inv_history: "status_inv (history calls)"
proof (induction calls rule: rev_induct)
  case Nil
  show ?case by (simp add: history_def status_inv_def new_ModelManager_def)
next
  case (snoc c calls)
  then show ?case by (simp add: history_snoc status_inv_perform)
qed

lemma loading_is_in_flight:
  assumes "statusIsLoading (history calls) k"
  shows "inFlightOrLoaded (history calls) k \<and> \<not> statusIsLoaded (history calls) k"
proof (cases "map_of (modelStatus (history calls)) k")
  case None
  then show ?thesis using assms by (simp add: statusIsLoading_def getModelStatus_def)
next
  case (Some status)
  then have "(k, status) \<in> set (modelStatus (history calls))" by (rule map_of_SomeD)
  then have "\<not> isLoading status \<or> (\<not> isLoaded status \<and> error status = None)"
    using status_inv_history[of calls] by (auto simp: status_inv_def list_all_iff)
  moreover have "isLoading status"
    using assms Some by (simp add: statusIsLoading_def getModelStatus_def)
  ultimately show ?thesis using Some
    by (simp add: inFlightOrLoaded_def statusIsLoaded_def getModelStatus_def)
qed

text \<open>
  With no model object ever assigned, no call changes the status of a resource whose load is
  in flight or has finished, except the resumption of the load, which makes it loaded.
\<close>

lemma inFlightOrLoaded_perform:
  assumes inv: "manager_inv s lastm" and st: "inFlightOrLoaded s k"
  shows "inFlightOrLoaded (perform s c) k"
proof -
  have none: "gemmaModel s = None" "ttsModel s = None"
    using inv by (simp_all add: manager_inv_def)
  have frame: "\<And>s'. modelStatus s' = modelStatus s \<Longrightarrow> inFlightOrLoaded s' k"
    using st by (simp add: inFlightOrLoaded_def getModelStatus_def)
  show ?thesis
  proof (cases c)
    case (LoadStart m now)
    show ?thesis
    proof (cases "modelKeyOf m = k")
      case True
      then have "statusIsLoaded s (modelKeyOf m) \<or> statusIsLoading s (modelKeyOf m)"
        using st by (auto simp: inFlightOrLoaded_def statusIsLoaded_def statusIsLoading_def
            split: option.splits)
      then have "snd (loadModel_start m now s) = s"
        by (auto simp: loadModel_start_def loadModel_enter_def)
      then show ?thesis using LoadStart st by simp
    next
      case False
      then have "getModelStatus (snd (loadModel_start m now s)) k = getModelStatus s k"
        by (auto simp: loadModel_start_def loadModel_enter_def loadModel_try_def loadModel_catch_def
            loadQuantizedModel_def getModelStatus_set)
      then show ?thesis using LoadStart st by (simp add: inFlightOrLoaded_def)
    qed
  next
    case (LoadFinish m now)
    have "getModelStatus (snd (loadModel_finish m now s)) k
        = (if k = modelKeyOf m then Some (loadedStatus now (memoryLimit (configOf m s)))
           else getModelStatus s k)"
      by (auto simp: loadModel_finish_def scheduleModelUnload_def cancelUnloadTimer_def Let_def
          getModelStatus_def setModelStatus_def update_conv' split: option.splits)
    then show ?thesis using LoadFinish st by (simp add: inFlightOrLoaded_def loadedStatus_def)
  next
    case (TimeoutFires h now)
    then show ?thesis using none
      by (auto simp: fireTimeout_def unloadCallback_def unloadGemmaModel_def unloadTTSModel_def
          split: option.splits intro!: frame)
  next
    case (AppStateChange a now)
    then show ?thesis using none st
      by (auto simp: handleAppStateChange_def unloadModelsOnBackground_def cancelUnloadTimer_def
          unloadGemmaModel_def unloadTTSModel_def split: option.splits intro!: frame)
  next
    case (UnloadGemma now)
    then show ?thesis using none st by (simp add: unloadGemmaModel_def)
  next
    case (UnloadTTS now)
    then show ?thesis using none st by (simp add: unloadTTSModel_def)
  next
    case (Cleanup now)
    then show ?thesis using none
      by (auto simp: cleanup_def cancelUnloadTimer_def unloadGemmaModel_def unloadTTSModel_def
          split: option.splits intro!: frame)
  qed
qed

lemma inFlightOrLoaded_history:
  assumes "inFlightOrLoaded (history calls) k"
  shows "inFlightOrLoaded (history (calls @ rest)) k"
proof (induction rest rule: rev_induct)
  case Nil
  show ?case using assms by simp
next
  case (snoc c rest)
  have "history (calls @ rest @ [c]) = perform (history (calls @ rest)) c"
    using history_snoc[of "calls @ rest" c] by simp
  then show ?case
    using inFlightOrLoaded_perform[OF manager_inv_history[of "calls @ rest"] snoc, of c] by simp
qed

lemma checkStatus_in_flight:
  "inFlightOrLoaded s k \<Longrightarrow> checkStatus k s = statusIsLoaded s k"
  by (auto simp: inFlightOrLoaded_def checkStatus_def statusIsLoaded_def split: option.splits)

text \<open>
  C7. In every history of the manager, when the load function is called while the resource
  is loading, the call starts no second load: it changes nothing of the manager and waits in
  \<open>waitForModelLoad\<close>. The load in flight does not fail: whatever happens next, the status of
  the resource stays loading or loaded, with no error recorded. So the poll of a waiting
  caller succeeds exactly on a loaded status, and a waiting caller, whatever the moments of
  its polls, returns exactly when one of them finds the resource loaded: no waiting caller
  returns as a success after a failed load.
\<close>

theorem waiter_returns_only_when_loaded:
  assumes "statusIsLoading (history calls) (modelKeyOf m)"
  shows "loadModel_start m now (history calls) = (AwaitWait, history calls)
    \<and> inFlightOrLoaded (history (calls @ rest)) (modelKeyOf m)
    \<and> checkStatus (modelKeyOf m) (history (calls @ rest))
        = statusIsLoaded (history (calls @ rest)) (modelKeyOf m)
    \<and> loadModel_waiting m (map (\<lambda>later. history (calls @ later)) moments)
        = (if \<exists>later \<in> set moments. statusIsLoaded (history (calls @ later)) (modelKeyOf m)
           then Some Returned else None)"
proof -
  have start: "inFlightOrLoaded (history calls) (modelKeyOf m)"
    and notLoaded: "\<not> statusIsLoaded (history calls) (modelKeyOf m)"
    using loading_is_in_flight[OF assms] by simp_all
  have a: "loadModel_start m now (history calls) = (AwaitWait, history calls)"
    using assms notLoaded by (simp add: loadModel_start_def loadModel_enter_def)
  have b: "\<And>later. inFlightOrLoaded (history (calls @ later)) (modelKeyOf m)"
    using start by (rule inFlightOrLoaded_history)
  have c: "\<And>later. checkStatus (modelKeyOf m) (history (calls @ later))
        = statusIsLoaded (history (calls @ later)) (modelKeyOf m)"
    using b by (rule checkStatus_in_flight)
  let ?polls = "map (\<lambda>later. history (calls @ later)) moments"
  have "(waitForModelLoad (modelKeyOf m) ?polls \<noteq> None)
      = (\<exists>p \<in> set ?polls. checkStatus (modelKeyOf m) p)"
    by (rule waitForModelLoad_Some)
  also have "\<dots> = (\<exists>later \<in> set moments. statusIsLoaded (history (calls @ later)) (modelKeyOf m))"
    using c by simp
  finally have w: "(waitForModelLoad (modelKeyOf m) ?polls \<noteq> None)
      = (\<exists>later \<in> set moments. statusIsLoaded (history (calls @ later)) (modelKeyOf m))" .
  have d: "loadModel_waiting m ?polls
        = (if \<exists>later \<in> set moments. statusIsLoaded (history (calls @ later)) (modelKeyOf m)
           then Some Returned else None)"
    using w by (cases "waitForModelLoad (modelKeyOf m) ?polls") (simp_all add: loadModel_waiting_def)
  show ?thesis using a b[of rest] c[of rest] d by simp
qed

theorem waiter_returns_only_when_loaded_witness:
  "statusIsLoading (history [LoadStart Gemma 0]) ''gemma''
   \<and> loadModel_start Gemma 100 (history [LoadStart Gemma 0]) = (AwaitWait, history [LoadStart Gemma 0])
   \<and> loadModel_waiting Gemma
        [history [LoadStart Gemma 0], history [LoadStart Gemma 0, LoadStart Gemma 100]] = None
   \<and> loadModel_waiting Gemma
        [history [LoadStart Gemma 0], history [LoadStart Gemma 0, LoadStart Gemma 100],
         history [LoadStart Gemma 0, LoadStart Gemma 100, LoadFinish Gemma 2000]] = Some Returned
   \<and> getModelStatus (history [LoadStart Gemma 0, LoadStart Gemma 100, LoadFinish Gemma 2000]) ''gemma''
        = Some (loadedStatus 2000 256)"
  using waiter_returns_only_when_loaded [of "[LoadStart Gemma 0]" Gemma 100
      "[LoadStart Gemma 100, LoadFinish Gemma 2000]"
      "[[], [LoadStart Gemma 100], [LoadStart Gemma 100, LoadFinish Gemma 2000]]"]
  by (simp add: history_def loadModel_waiting_def checkStatus_def
      loadModel_start_def loadModel_enter_def loadModel_try_def loadModel_catch_def
      loadModel_finish_def loadQuantizedModel_def checkMemoryAvailability_def
      getCurrentMemoryUsage_def statusIsLoaded_def statusIsLoading_def getModelStatus_def
      setModelStatus_def loadingStatus_def loadedStatus_def scheduleModelUnload_def
      cancelUnloadTimer_def new_ModelManager_def)

end
